theory Spec2Isabelle
  imports Main "HOL-Library.Word" "HOL-Library.Sublist"
begin

section \<open>Strings of the source language\<close>

text \<open>
  The source is TypeScript: a string is a sequence of UTF-16 code units, its \<open>length\<close>
  counts code units, \<open>===\<close> compares the sequences, and a regular expression without
  the \<open>u\<close> flag consumes one code unit per \<open>.\<close>. A string is therefore a list of
  16-bit words; \<open>js\<close> writes an ASCII literal of the source.
\<close>

type_synonym codeUnit = "16 word"
type_synonym jsstring = "codeUnit list"

definition js :: "string \<Rightarrow> jsstring" where
  "js s = map of_char s"

text \<open>
  The line terminators of the language (LF, CR, LINE SEPARATOR, PARAGRAPH SEPARATOR):
  the code units that \<open>.\<close> refuses and after which \<open>^\<close> matches under the \<open>m\<close> flag.
\<close>

definition isLineTerminator :: "codeUnit \<Rightarrow> bool" where
  "isLineTerminator c \<longleftrightarrow> c = 0x000A \<or> c = 0x000D \<or> c = 0x2028 \<or> c = 0x2029"

text \<open>\<open>String.prototype.split\<close> with a separator of one code unit.\<close>

fun split :: "codeUnit \<Rightarrow> jsstring \<Rightarrow> jsstring list" where
  "split sep [] = [[]]"
| "split sep (c # cs) =
     (if c = sep then [] # split sep cs
      else (case split sep cs of [] \<Rightarrow> [[c]] | x # xs \<Rightarrow> (c # x) # xs))"

text \<open>\<open>String(n)\<close> for an integral number, as a template literal renders it.\<close>

fun digitsOf :: "nat \<Rightarrow> jsstring" where
  "digitsOf n =
     (if n < 10 then [of_nat (48 + n)]
      else digitsOf (n div 10) @ [of_nat (48 + n mod 10)])"

declare digitsOf.simps [simp del]

definition numberToString :: "int \<Rightarrow> jsstring" where
  "numberToString i = (if i < 0 then js ''-'' @ digitsOf (nat (- i)) else digitsOf (nat i))"

section \<open>Entry codec\<close>

definition DesktopStashEntryMarker :: jsstring where
  "DesktopStashEntryMarker = js ''!!GitHub_Desktop''"

text \<open>
  \<open>desktopStashEntryMessageRe = /!!GitHub_Desktop<(.+)>$/\<close>, run by \<open>exec\<close> as a
  backtracking matcher does. \<open>matchLiteral\<close> consumes the literal characters and returns
  the rest of the input. \<open>greedyDots\<close> is the quantifier \<open>.+\<close> after its first
  character: it first tries to take one more character that is not a line terminator, and
  only when the rest of the pattern fails after that it tries the rest of the pattern
  (\<open>>\<close> and then \<open>$\<close>, the end of the input, there being no \<open>m\<close> flag) where it stands.
  \<open>exec\<close> tries the start positions from left to right and returns the match array
  (the matched text and capture group 1) of the first position that matches.
\<close>

fun matchLiteral :: "jsstring \<Rightarrow> jsstring \<Rightarrow> jsstring option" where
  "matchLiteral [] s = Some s"
| "matchLiteral (p # ps) [] = None"
| "matchLiteral (p # ps) (c # cs) = (if p = c then matchLiteral ps cs else None)"

definition closeAtEnd :: "jsstring \<Rightarrow> bool" where
  "closeAtEnd s \<longleftrightarrow> (case matchLiteral (js ''>'') s of None \<Rightarrow> False | Some r \<Rightarrow> r = [])"

fun greedyDots :: "jsstring \<Rightarrow> jsstring \<Rightarrow> jsstring option" where
  "greedyDots cap [] = (if closeAtEnd [] then Some cap else None)"
| "greedyDots cap (c # cs) =
     (case (if isLineTerminator c then None else greedyDots (cap @ [c]) cs) of
        Some m \<Rightarrow> Some m
      | None \<Rightarrow> (if closeAtEnd (c # cs) then Some cap else None))"

definition matchMarkerAt :: "jsstring \<Rightarrow> jsstring list option" where
  "matchMarkerAt s =
     (case matchLiteral (js ''!!GitHub_Desktop<'') s of
        None \<Rightarrow> None
      | Some r \<Rightarrow>
          (case r of
             [] \<Rightarrow> None
           | c # cs \<Rightarrow>
               (if isLineTerminator c then None
                else (case greedyDots [c] cs of
                        None \<Rightarrow> None
                      | Some cap \<Rightarrow> Some [js ''!!GitHub_Desktop<'' @ cap @ js ''>'', cap]))))"

fun desktopStashEntryMessageRe_exec :: "jsstring \<Rightarrow> jsstring list option" where
  "desktopStashEntryMessageRe_exec [] = matchMarkerAt []"
| "desktopStashEntryMessageRe_exec (c # cs) =
     (case matchMarkerAt (c # cs) of
        Some m \<Rightarrow> Some m
      | None \<Rightarrow> desktopStashEntryMessageRe_exec cs)"

definition extractBranchFromMessage :: "jsstring \<Rightarrow> jsstring option" where
  "extractBranchFromMessage message =
     (case desktopStashEntryMessageRe_exec message of
        None \<Rightarrow> None
      | Some match \<Rightarrow> (if length (match ! 1) = 0 then None else Some (match ! 1)))"

definition createDesktopStashMessage :: "jsstring \<Rightarrow> jsstring" where
  "createDesktopStashMessage branchName =
     DesktopStashEntryMarker @ js ''<'' @ branchName @ js ''>''"

text \<open>
  The marker pattern in words, for comparison with the matcher: the message ends in the
  marker, an opening delimiter, a captured name of at least one code unit none of which is
  a line terminator, and the closing delimiter.
\<close>

definition spec_endsInMarker :: "jsstring \<Rightarrow> jsstring \<Rightarrow> bool" where
  "spec_endsInMarker message cap \<longleftrightarrow>
     (\<exists>pre. message = pre @ DesktopStashEntryMarker @ js ''<'' @ cap @ js ''>'')
     \<and> cap \<noteq> [] \<and> (\<forall>c \<in> set cap. \<not> isLineTerminator c)"

section \<open>The process layer\<close>

text \<open>
  The external binary is a parameter of the model: a \<open>process\<close> takes the arguments and
  the working directory and answers with an exit code and two output streams, changing
  the store \<open>'w\<close> it works on in a way this code does not see.
\<close>

text \<open>
  Modelled from the spec: the error kinds that the process layer recognises in the output
  of a run and exposes as a tag, of which the source names the merge conflict only, and
  the result of a run with its exit code, its two output streams and that tag.
\<close>

datatype DugiteError = MergeConflicts | OtherDugiteError nat

record IGitResult =
  exitCode :: int
  stdout :: jsstring
  stderr :: jsstring
  gitError :: "DugiteError option"

datatype error = GitError IGitResult "jsstring list"

record GitExecutionOptions =
  successExitCodes :: "int set"
  expectedErrors :: "DugiteError set"

type_synonym 'w process = "jsstring list \<Rightarrow> jsstring \<Rightarrow> 'w \<Rightarrow> IGitResult \<times> 'w"

text \<open>
  What an operation threads through its steps: the external store, the commands issued
  to it so far (each \<open>await git(...)\<close> adds its arguments), and the lines given to
  \<open>log.info\<close>.
\<close>

record 'w system =
  store :: 'w
  calls :: "jsstring list list"
  logged :: "jsstring list"

text \<open>
  Modelled from the spec: the command runner \<open>git\<close> of \<open>./core\<close> (\<open>runCommand\<close>),
  whose source is not part of the files at hand. It runs the process and fails by raising
  an error that carries the result and the arguments unless the exit code is one of
  \<open>successExitCodes\<close>; an error kind that the process layer has classified and that is
  among \<open>expectedErrors\<close> is let through as a result as well. What a call without
  options accepts is left open there; it is taken to accept exit code 0 only and to expect
  no error kind, and nothing proved below for every process depends on that choice.
\<close>

definition defaultOptions :: GitExecutionOptions where
  "defaultOptions = \<lparr>successExitCodes = {0}, expectedErrors = {}\<rparr>"

definition git ::
  "'w process \<Rightarrow> jsstring list \<Rightarrow> jsstring \<Rightarrow> jsstring \<Rightarrow> GitExecutionOptions
     \<Rightarrow> 'w system \<Rightarrow> (error + IGitResult) \<times> 'w system" where
  "git process args path' name' options s =
     (case process args path' (store s) of
        (result, w) \<Rightarrow>
          (let s' = s\<lparr>store := w, calls := calls s @ [args]\<rparr>;
               acceptableExitCode = (exitCode result \<in> successExitCodes options);
               acceptableError =
                 (case gitError result of None \<Rightarrow> False | Some e \<Rightarrow> e \<in> expectedErrors options)
           in if acceptableError \<or> acceptableExitCode then (Inr result, s')
              else (Inl (GitError result args), s')))"

section \<open>Stash lister\<close>

record Repository =
  path :: jsstring

text \<open>
  Modelled from the spec: the load state of an entry's file changes, declared in
  \<open>models/stash-entry\<close>; the lister only ever builds the not-loaded placeholder.
\<close>

datatype StashedFileChanges = NotLoaded | Loading | Loaded "jsstring list" | LoadFailed

record IStashEntry =
  name :: jsstring
  branchName :: jsstring
  stashSha :: jsstring
  files :: StashedFileChanges

record StashResult =
  desktopEntries :: "IStashEntry list"
  stashEntryCount :: int

text \<open>\<open>Array.prototype.join\<close> on strings.\<close>

fun join :: "jsstring \<Rightarrow> jsstring list \<Rightarrow> jsstring" where
  "join sep [] = []"
| "join sep [x] = x"
| "join sep (x # y # ys) = x @ sep @ join sep (y # ys)"

text \<open>\<open>String.fromCharCode(parseInt('1F', 16))\<close>: the unit separator.\<close>

definition delimiterString :: codeUnit where
  "delimiterString = 0x1F"

definition getStashesArgs :: "jsstring list" where
  "getStashesArgs =
     [js ''log'', js ''-g'', js ''-z'',
      js ''--pretty='' @ join (js ''%x1F'') [js ''%gd'', js ''%H'', js ''%gs''],
      js ''refs/stash'']"

text \<open>The raw records: \<open>result.stdout.split('\0').filter(s => s !== '')\<close>.\<close>

definition rawEntries :: "jsstring \<Rightarrow> jsstring list" where
  "rawEntries out = filter (\<lambda>s. s \<noteq> []) (split 0 out)"

text \<open>The loop over the raw records, pushing an entry for each record of three pieces
  whose message decodes to a branch name.\<close>

fun collectEntries :: "jsstring list \<Rightarrow> IStashEntry list \<Rightarrow> IStashEntry list" where
  "collectEntries [] desktopStashEntries = desktopStashEntries"
| "collectEntries (entry # entries) desktopStashEntries =
     (let pieces = split delimiterString entry in
      if length pieces = 3 then
        (case extractBranchFromMessage (pieces ! 2) of
           Some branch \<Rightarrow>
             collectEntries entries
               (desktopStashEntries @
                 [\<lparr>name = pieces ! 0, branchName = branch, stashSha = pieces ! 1,
                   files = NotLoaded\<rparr>])
         | None \<Rightarrow> collectEntries entries desktopStashEntries)
      else collectEntries entries desktopStashEntries)"

definition getStashes ::
  "'w process \<Rightarrow> Repository \<Rightarrow> 'w system \<Rightarrow> (error + StashResult) \<times> 'w system" where
  "getStashes process repository s =
     (case git process getStashesArgs (path repository) (js ''getStashEntries'')
             \<lparr>successExitCodes = {0, 128}, expectedErrors = {}\<rparr> s of
        (Inl e, s1) \<Rightarrow> (Inl e, s1)
      | (Inr result, s1) \<Rightarrow>
          if exitCode result = 128 then
            (Inr \<lparr>desktopEntries = [], stashEntryCount = 0\<rparr>, s1)
          else
            (let entries = rawEntries (stdout result) in
             (Inr \<lparr>desktopEntries = collectEntries entries [],
                   stashEntryCount = int (length entries) - 1\<rparr>, s1)))"

section \<open>Stash locator\<close>

definition getLastDesktopStashEntryForBranch ::
  "'w process \<Rightarrow> Repository \<Rightarrow> jsstring \<Rightarrow> 'w system
     \<Rightarrow> (error + IStashEntry option) \<times> 'w system" where
  "getLastDesktopStashEntryForBranch process repository branch s =
     (case getStashes process repository s of
        (Inl e, s1) \<Rightarrow> (Inl e, s1)
      | (Inr stash, s1) \<Rightarrow>
          (Inr (find (\<lambda>entry. branchName entry = branch) (desktopEntries stash)), s1))"

definition getStashEntryMatchingSha ::
  "'w process \<Rightarrow> Repository \<Rightarrow> jsstring \<Rightarrow> 'w system
     \<Rightarrow> (error + IStashEntry option) \<times> 'w system" where
  "getStashEntryMatchingSha process repository sha s =
     (case getStashes process repository s of
        (Inl e, s1) \<Rightarrow> (Inl e, s1)
      | (Inr stash, s1) \<Rightarrow>
          (Inr (find (\<lambda>e. stashSha e = sha) (desktopEntries stash)), s1))"

section \<open>Stash mutator\<close>

text \<open>
  \<open>errorPrefixRe = /^error: /m\<close> run by \<open>exec\<close>: under the \<open>m\<close> flag \<open>^\<close> holds
  at the start of the input and after every line terminator; the positions are tried from
  left to right and the match array holds the matched text.
\<close>

fun errorPrefixRe_from :: "bool \<Rightarrow> jsstring \<Rightarrow> jsstring list option" where
  "errorPrefixRe_from lineStart [] =
     (if lineStart \<and> matchLiteral (js ''error: '') [] \<noteq> None then Some [js ''error: '']
      else None)"
| "errorPrefixRe_from lineStart (c # cs) =
     (if lineStart \<and> matchLiteral (js ''error: '') (c # cs) \<noteq> None then Some [js ''error: '']
      else errorPrefixRe_from (isLineTerminator c) cs)"

definition errorPrefixRe_exec :: "jsstring \<Rightarrow> jsstring list option" where
  "errorPrefixRe_exec s = errorPrefixRe_from True s"

definition stageUntrackedFiles ::
  "'w process \<Rightarrow> Repository \<Rightarrow> 'w system \<Rightarrow> (error + unit) \<times> 'w system" where
  "stageUntrackedFiles process repository s =
     (case git process [js ''ls-files'', js ''-z'', js ''--others'', js ''--exclude-standard'']
             (path repository) (js ''getUntrackedFilesToStage'') defaultOptions s of
        (Inl e, s1) \<Rightarrow> (Inl e, s1)
      | (Inr result, s1) \<Rightarrow>
          if length (stdout result) \<noteq> 0 then
            (let untrackedFiles = split 0 (take (length (stdout result) - 1) (stdout result));
                 args = js ''add'' # untrackedFiles
             in case git process args (path repository) (js ''stageUntrackedFiles'')
                       defaultOptions s1 of
                  (Inl e, s2) \<Rightarrow> (Inl e, s2)
                | (Inr added, s2) \<Rightarrow> (Inr (), s2))
          else (Inr (), s1))"

definition createStashArgs :: "jsstring \<Rightarrow> jsstring list" where
  "createStashArgs branch =
     [js ''stash'', js ''push'', js ''-m'', createDesktopStashMessage branch]"

definition createStashLogLine :: "IGitResult \<Rightarrow> jsstring" where
  "createStashLogLine result =
     js ''[createDesktopStashEntry] a stash was created successfully but exit code ''
     @ numberToString (exitCode result) @ js '' reported. stderr: '' @ stderr result"

definition createDesktopStashEntry ::
  "'w process \<Rightarrow> Repository \<Rightarrow> jsstring \<Rightarrow> 'w system \<Rightarrow> (error + bool) \<times> 'w system" where
  "createDesktopStashEntry process repository branch s =
     (case stageUntrackedFiles process repository s of
        (Inl e, s1) \<Rightarrow> (Inl e, s1)
      | (Inr staged, s1) \<Rightarrow>
          (let args = createStashArgs branch in
           case git process args (path repository) (js ''createStashEntry'')
                  \<lparr>successExitCodes = {0, 1}, expectedErrors = {}\<rparr> s1 of
             (Inl e, s2) \<Rightarrow> (Inl e, s2)
           | (Inr result, s2) \<Rightarrow>
               if exitCode result = 1 then
                 (case errorPrefixRe_exec (stderr result) of
                    Some matches \<Rightarrow>
                      if length matches > 0 then (Inl (GitError result args), s2)
                      else (Inr True, s2\<lparr>logged := logged s2 @ [createStashLogLine result]\<rparr>)
                  | None \<Rightarrow>
                      (Inr True, s2\<lparr>logged := logged s2 @ [createStashLogLine result]\<rparr>))
               else (Inr True, s2)))"

definition dropStashArgs :: "IStashEntry \<Rightarrow> jsstring list" where
  "dropStashArgs entryToDelete = [js ''stash'', js ''drop'', name entryToDelete]"

definition dropDesktopStashEntry ::
  "'w process \<Rightarrow> Repository \<Rightarrow> jsstring \<Rightarrow> 'w system \<Rightarrow> (error + unit) \<times> 'w system" where
  "dropDesktopStashEntry process repository sha s =
     (case getStashEntryMatchingSha process repository sha s of
        (Inl e, s1) \<Rightarrow> (Inl e, s1)
      | (Inr None, s1) \<Rightarrow> (Inr (), s1)
      | (Inr (Some entryToDelete), s1) \<Rightarrow>
          (case git process (dropStashArgs entryToDelete) (path repository)
                  (js ''dropStashEntry'') defaultOptions s1 of
             (Inl e, s2) \<Rightarrow> (Inl e, s2)
           | (Inr dropped, s2) \<Rightarrow> (Inr (), s2)))"

definition popStashArgs :: "IStashEntry \<Rightarrow> jsstring list" where
  "popStashArgs stashToPop = [js ''stash'', js ''pop'', js ''--quiet'', name stashToPop]"

definition popStashOptions :: GitExecutionOptions where
  "popStashOptions = \<lparr>successExitCodes = {0, 1}, expectedErrors = {MergeConflicts}\<rparr>"

definition popStashLogLine :: "IGitResult \<Rightarrow> jsstring" where
  "popStashLogLine result =
     js ''[popStashEntry] a stash was popped successfully but exit code ''
     @ numberToString (exitCode result) @ js '' reported.''"

definition popStashEntry ::
  "'w process \<Rightarrow> Repository \<Rightarrow> jsstring \<Rightarrow> 'w system \<Rightarrow> (error + unit) \<times> 'w system" where
  "popStashEntry process repository sha s =
     (case getStashEntryMatchingSha process repository sha s of
        (Inl e, s1) \<Rightarrow> (Inl e, s1)
      | (Inr None, s1) \<Rightarrow> (Inr (), s1)
      | (Inr (Some stashToPop), s1) \<Rightarrow>
          (let args = popStashArgs stashToPop in
           case git process args (path repository) (js ''popStashEntry'') popStashOptions s1 of
             (Inl e, s2) \<Rightarrow> (Inl e, s2)
           | (Inr result, s2) \<Rightarrow>
               if exitCode result = 1 then
                 (if length (stderr result) > 0 then (Inl (GitError result args), s2)
                  else dropDesktopStashEntry process repository sha
                         (s2\<lparr>logged := logged s2 @ [popStashLogLine result]\<rparr>))
               else (Inr (), s2)))"

section \<open>Error lines in words, and what is expected of the store\<close>

text \<open>
  A line of the standard error begins with the error tag: the text is cut at every line
  terminator and one of the pieces starts with \<open>error: \<close>.
\<close>

fun spec_linesOf :: "jsstring \<Rightarrow> jsstring list" where
  "spec_linesOf [] = [[]]"
| "spec_linesOf (c # cs) =
     (if isLineTerminator c then [] # spec_linesOf cs
      else (case spec_linesOf cs of [] \<Rightarrow> [[c]] | l # ls \<Rightarrow> (c # l) # ls))"

definition spec_hasErrorLine :: "jsstring \<Rightarrow> bool" where
  "spec_hasErrorLine err \<longleftrightarrow> (\<exists>l \<in> set (spec_linesOf err). prefix (js ''error: '') l)"

text \<open>
  What the operations rely on from the external store, which no line of this code can
  guarantee. A drop that succeeds removes the entry it names: an owned entry that was
  listed, and dropped by its positional name right after the listing, is not listed again.
  Listing does not change what is listed. A pop that exits with code 1 and a non-empty
  standard error has left the entry in place.
\<close>

definition dropHonoured :: "'w process \<Rightarrow> Repository \<Rightarrow> bool" where
  "dropHonoured process repository \<longleftrightarrow>
     (\<forall>s listed s1 e dropped s2 relisted s3.
        getStashes process repository s = (Inr listed, s1) \<longrightarrow>
        e \<in> set (desktopEntries listed) \<longrightarrow>
        git process (dropStashArgs e) (path repository) (js ''dropStashEntry'')
          defaultOptions s1 = (Inr dropped, s2) \<longrightarrow>
        getStashes process repository s2 = (Inr relisted, s3) \<longrightarrow>
        stashSha e \<notin> stashSha ` set (desktopEntries relisted))"

definition listingStable :: "'w process \<Rightarrow> Repository \<Rightarrow> bool" where
  "listingStable process repository \<longleftrightarrow>
     (\<forall>s listed s1 relisted s2.
        getStashes process repository s = (Inr listed, s1) \<longrightarrow>
        getStashes process repository s1 = (Inr relisted, s2) \<longrightarrow>
        desktopEntries relisted = desktopEntries listed)"

definition failedPopKeeps :: "'w process \<Rightarrow> Repository \<Rightarrow> bool" where
  "failedPopKeeps process repository \<longleftrightarrow>
     (\<forall>s listed s1 e popped s2 relisted s3.
        getStashes process repository s = (Inr listed, s1) \<longrightarrow>
        e \<in> set (desktopEntries listed) \<longrightarrow>
        git process (popStashArgs e) (path repository) (js ''popStashEntry'')
          popStashOptions s1 = (Inr popped, s2) \<longrightarrow>
        exitCode popped = 1 \<longrightarrow> stderr popped \<noteq> [] \<longrightarrow>
        getStashes process repository s2 = (Inr relisted, s3) \<longrightarrow>
        stashSha e \<in> stashSha ` set (desktopEntries relisted))"

section \<open>Processes to run the operations on\<close>

text \<open>
  A process that replays prepared answers, whatever it is asked; when none is left the
  command is not found.
\<close>

definition scripted :: "(IGitResult list) process" where
  "scripted args path' w =
     (case w of
        [] \<Rightarrow> (\<lparr>exitCode = 127, stdout = [], stderr = js ''command not found'',
                 gitError = None\<rparr>, [])
      | r # rs \<Rightarrow> (r, rs))"

text \<open>
  A store of two states: one owned entry for \<open>feature-x\<close> shelved on top of a foreign
  entry, or the owned entry gone. It lists both or the foreign one, answers a pop of the
  owned entry with a given result and leaves the entry in place, drops the owned entry,
  and rejects everything else.
\<close>

datatype shelf = Shelved | Emptied

text \<open>The positional name of an entry: \<open>stash@\<close> and the index in braces.\<close>

definition positionalRef :: "string \<Rightarrow> jsstring" where
  "positionalRef index = js ''stash@'' @ js ''{'' @ js index @ js ''}''"

definition ownedRecord :: jsstring where
  "ownedRecord =
     positionalRef ''0'' @ [delimiterString] @ js ''f3a9c1d2'' @ [delimiterString]
     @ js ''On feature-x: !!GitHub_Desktop<feature-x>''"

definition foreignRecord :: jsstring where
  "foreignRecord =
     positionalRef ''1'' @ [delimiterString] @ js ''77be02aa'' @ [delimiterString]
     @ js ''WIP on main: 1a2b3c4 fix typo''"

definition shelfProcess :: "IGitResult \<Rightarrow> shelf process" where
  "shelfProcess popAnswer args path' w =
     (if args = getStashesArgs then
        (\<lparr>exitCode = 0,
          stdout = (if w = Shelved then ownedRecord @ [0] @ foreignRecord @ [0]
                    else foreignRecord @ [0]),
          stderr = [], gitError = None\<rparr>, w)
      else if args = [js ''stash'', js ''pop'', js ''--quiet'', positionalRef ''0''] \<and> w = Shelved
        then (popAnswer, w)
      else if args = [js ''stash'', js ''drop'', positionalRef ''0''] \<and> w = Shelved
        then (\<lparr>exitCode = 0, stdout = js ''Dropped '', stderr = [],
               gitError = None\<rparr>, Emptied)
      else (\<lparr>exitCode = 1, stdout = [], stderr = js ''error: not supported'',
             gitError = None\<rparr>, w))"

definition ownedEntry :: IStashEntry where
  "ownedEntry =
     \<lparr>name = positionalRef ''0'', branchName = js ''feature-x'', stashSha = js ''f3a9c1d2'',
      files = NotLoaded\<rparr>"

definition olderRecord :: jsstring where
  "olderRecord =
     positionalRef ''2'' @ [delimiterString] @ js ''0c44e1b7'' @ [delimiterString]
     @ js ''On feature-x: !!GitHub_Desktop<feature-x>''"

definition olderEntry :: IStashEntry where
  "olderEntry =
     \<lparr>name = positionalRef ''2'', branchName = js ''feature-x'', stashSha = js ''0c44e1b7'',
      files = NotLoaded\<rparr>"

definition quirkAnswer :: IGitResult where
  "quirkAnswer = \<lparr>exitCode = 1, stdout = [], stderr = [], gitError = None\<rparr>"

definition conflictAnswer :: IGitResult where
  "conflictAnswer =
     \<lparr>exitCode = 1, stdout = [],
      stderr = js ''error: Your local changes would be overwritten by merge'',
      gitError = None\<rparr>"

definition repo :: Repository where
  "repo = \<lparr>path = js ''/home/user/project''\<rparr>"

definition untrackedAnswer :: IGitResult where
  "untrackedAnswer =
     \<lparr>exitCode = 0, stdout = js ''notes.txt'' @ [0] @ js ''src/new.ts'' @ [0], stderr = [],
      gitError = None\<rparr>"

definition doneAnswer :: IGitResult where
  "doneAnswer = \<lparr>exitCode = 0, stdout = [], stderr = [], gitError = None\<rparr>"

definition warnedAnswer :: IGitResult where
  "warnedAnswer =
     \<lparr>exitCode = 1, stdout = [],
      stderr = js ''warning: LF will be replaced by CRLF in notes.txt.'' @ [0x000A]
               @ js ''The file will have its original line endings.'' @ [0x000A],
      gitError = None\<rparr>"

definition refusedAnswer :: IGitResult where
  "refusedAnswer =
     \<lparr>exitCode = 1, stdout = [],
      stderr = js ''warning: LF will be replaced by CRLF in notes.txt.'' @ [0x000A]
               @ js ''error: unable to write new index file'' @ [0x000A],
      gitError = None\<rparr>"

section \<open>Properties of the codec\<close>

lemma matchLiteral_Some: "matchLiteral p s = Some r \<longleftrightarrow> s = p @ r"
proof (induction p s rule: matchLiteral.induct)
  case (1 s)
  show ?case by auto
next
  case (2 p ps)
  show ?case by simp
next
  case (3 p ps c cs)
  then show ?case by auto
qed

lemma closeAtEnd_iff: "closeAtEnd s \<longleftrightarrow> s = js ''>''"
  by (simp add: closeAtEnd_def matchLiteral_Some split: option.splits) (auto simp: js_def)

lemma greedyDots_Some:
  "greedyDots cap r = Some m \<longleftrightarrow>
     (\<exists>x. r = x @ js ''>'' \<and> (\<forall>c \<in> set x. \<not> isLineTerminator c) \<and> m = cap @ x)"
proof (induction r arbitrary: cap m)
  case Nil
  show ?case by (simp add: closeAtEnd_iff js_def)
next
  case (Cons c cs)
  show ?case
  proof (cases "\<not> isLineTerminator c \<and> (\<exists>m'. greedyDots (cap @ [c]) cs = Some m')")
    case True
    then obtain m' where nt: "\<not> isLineTerminator c" and g: "greedyDots (cap @ [c]) cs = Some m'"
      by blast
    from g obtain x where x: "cs = x @ js ''>''" "\<forall>d \<in> set x. \<not> isLineTerminator d"
      "m' = (cap @ [c]) @ x"
      using Cons.IH by blast
    have res: "greedyDots cap (c # cs) = Some m'" using nt g by simp
    show ?thesis
    proof
      assume "greedyDots cap (c # cs) = Some m"
      then have "m = m'" using res by simp
      then have "c # cs = (c # x) @ js ''>'' \<and> (\<forall>d \<in> set (c # x). \<not> isLineTerminator d)
          \<and> m = cap @ (c # x)"
        using x nt by simp
      then show "\<exists>y. c # cs = y @ js ''>'' \<and> (\<forall>d \<in> set y. \<not> isLineTerminator d) \<and> m = cap @ y"
        by blast
    next
      assume "\<exists>y. c # cs = y @ js ''>'' \<and> (\<forall>d \<in> set y. \<not> isLineTerminator d) \<and> m = cap @ y"
      then obtain y where y: "c # cs = y @ js ''>''" "m = cap @ y" by blast
      have "y \<noteq> []"
      proof
        assume "y = []"
        then have "cs = []" using y(1) by (simp add: js_def)
        then show False using x(1) by (simp add: js_def)
      qed
      then obtain y' where y': "y = c # y'" using y(1) by (cases y) auto
      then have "x @ js ''>'' = y' @ js ''>''" using y(1) x(1) by simp
      then have "x = y'" by simp
      then show "greedyDots cap (c # cs) = Some m" using res x(3) y(2) y' by simp
    qed
  next
    case False
    then have res: "greedyDots cap (c # cs) = (if closeAtEnd (c # cs) then Some cap else None)"
      by (auto split: option.splits)
    show ?thesis
    proof
      assume "greedyDots cap (c # cs) = Some m"
      then have "c # cs = js ''>''" "m = cap"
        using res by (auto simp: closeAtEnd_iff split: if_splits)
      then have "c # cs = [] @ js ''>'' \<and> (\<forall>d \<in> set []. \<not> isLineTerminator d) \<and> m = cap @ []"
        by simp
      then show "\<exists>y. c # cs = y @ js ''>'' \<and> (\<forall>d \<in> set y. \<not> isLineTerminator d) \<and> m = cap @ y"
        by blast
    next
      assume "\<exists>y. c # cs = y @ js ''>'' \<and> (\<forall>d \<in> set y. \<not> isLineTerminator d) \<and> m = cap @ y"
      then obtain y where y: "c # cs = y @ js ''>''" "\<forall>d \<in> set y. \<not> isLineTerminator d"
        "m = cap @ y" by blast
      have "y = []"
      proof (rule ccontr)
        assume "y \<noteq> []"
        then obtain y' where y': "y = c # y'" using y(1) by (cases y) auto
        then have cs: "cs = y' @ js ''>''" using y(1) by simp
        have "greedyDots (cap @ [c]) cs = Some ((cap @ [c]) @ y')"
          using Cons.IH [of "cap @ [c]" "(cap @ [c]) @ y'"] cs y(2) y' by auto
        moreover have "\<not> isLineTerminator c" using y(2) y' by simp
        ultimately show False using False by blast
      qed
      then show "greedyDots cap (c # cs) = Some m"
        using res y by (simp add: closeAtEnd_iff)
    qed
  qed
qed

lemma matchMarkerAt_Some:
  "matchMarkerAt s = Some m \<longleftrightarrow>
     (\<exists>cap. s = js ''!!GitHub_Desktop<'' @ cap @ js ''>'' \<and> cap \<noteq> []
        \<and> (\<forall>c \<in> set cap. \<not> isLineTerminator c)
        \<and> m = [js ''!!GitHub_Desktop<'' @ cap @ js ''>'', cap])"
proof
  assume "matchMarkerAt s = Some m"
  then obtain r c cs cap where
    r: "matchLiteral (js ''!!GitHub_Desktop<'') s = Some r" "r = c # cs"
    and nt: "\<not> isLineTerminator c"
    and g: "greedyDots [c] cs = Some cap"
    and m: "m = [js ''!!GitHub_Desktop<'' @ cap @ js ''>'', cap]"
    by (auto simp: matchMarkerAt_def split: option.splits list.splits if_splits)
  from g obtain x where x: "cs = x @ js ''>''" "\<forall>d \<in> set x. \<not> isLineTerminator d" "cap = [c] @ x"
    using greedyDots_Some by blast
  have "s = js ''!!GitHub_Desktop<'' @ cap @ js ''>''"
    using r x by (simp add: matchLiteral_Some)
  moreover have "cap \<noteq> []" "\<forall>d \<in> set cap. \<not> isLineTerminator d"
    using x nt by auto
  ultimately show "\<exists>cap. s = js ''!!GitHub_Desktop<'' @ cap @ js ''>'' \<and> cap \<noteq> []
        \<and> (\<forall>c \<in> set cap. \<not> isLineTerminator c)
        \<and> m = [js ''!!GitHub_Desktop<'' @ cap @ js ''>'', cap]"
    using m by blast
next
  assume "\<exists>cap. s = js ''!!GitHub_Desktop<'' @ cap @ js ''>'' \<and> cap \<noteq> []
        \<and> (\<forall>c \<in> set cap. \<not> isLineTerminator c)
        \<and> m = [js ''!!GitHub_Desktop<'' @ cap @ js ''>'', cap]"
  then obtain cap where cap: "s = js ''!!GitHub_Desktop<'' @ cap @ js ''>''" "cap \<noteq> []"
    "\<forall>c \<in> set cap. \<not> isLineTerminator c"
    "m = [js ''!!GitHub_Desktop<'' @ cap @ js ''>'', cap]"
    by blast
  obtain c x where cx: "cap = c # x" using cap(2) by (cases cap) auto
  have lit: "matchLiteral (js ''!!GitHub_Desktop<'') s = Some (c # x @ js ''>'')"
    using cap(1) cx by (simp add: matchLiteral_Some)
  have "greedyDots [c] (x @ js ''>'') = Some ([c] @ x)"
    using greedyDots_Some [of "[c]" "x @ js ''>''" "[c] @ x"] cap(3) cx by auto
  then show "matchMarkerAt s = Some m"
    using lit cap(3,4) cx by (simp add: matchMarkerAt_def)
qed

lemma marker_literal: "js ''!!GitHub_Desktop<'' = DesktopStashEntryMarker @ js ''<''"
  by (simp add: DesktopStashEntryMarker_def js_def)

lemma exec_first_position:
  "matchMarkerAt s = Some m \<Longrightarrow> desktopStashEntryMessageRe_exec s = Some m"
  by (cases s) auto

lemma exec_None:
  "desktopStashEntryMessageRe_exec s = None \<longleftrightarrow> (\<forall>pre t. s = pre @ t \<longrightarrow> matchMarkerAt t = None)"
proof (induction s)
  case Nil
  show ?case by simp
next
  case (Cons c cs)
  show ?case
  proof
    assume n: "desktopStashEntryMessageRe_exec (c # cs) = None"
    then have here: "matchMarkerAt (c # cs) = None"
      and rest: "desktopStashEntryMessageRe_exec cs = None"
      by (auto split: option.splits)
    show "\<forall>pre t. c # cs = pre @ t \<longrightarrow> matchMarkerAt t = None"
    proof (intro allI impI)
      fix pre t
      assume e: "c # cs = pre @ t"
      show "matchMarkerAt t = None"
      proof (cases pre)
        case Nil
        then show ?thesis using e here by simp
      next
        case (Cons p ps)
        then have "cs = ps @ t" using e by simp
        then show ?thesis using rest Cons.IH by blast
      qed
    qed
  next
    assume a: "\<forall>pre t. c # cs = pre @ t \<longrightarrow> matchMarkerAt t = None"
    then have here: "matchMarkerAt (c # cs) = None" by (metis append_Nil)
    have "\<forall>pre t. cs = pre @ t \<longrightarrow> matchMarkerAt t = None"
      using a by (metis append_Cons)
    then have "desktopStashEntryMessageRe_exec cs = None" using Cons.IH by blast
    then show "desktopStashEntryMessageRe_exec (c # cs) = None" using here by simp
  qed
qed

lemma exec_Some_shape:
  "desktopStashEntryMessageRe_exec s = Some m \<Longrightarrow> \<exists>pre t. s = pre @ t \<and> matchMarkerAt t = Some m"
proof (induction s)
  case Nil
  then have "matchMarkerAt [] = Some m" by simp
  then have "[] = [] @ [] \<and> matchMarkerAt [] = Some m" by simp
  then show ?case by (intro exI)
next
  case (Cons c cs)
  show ?case
  proof (cases "matchMarkerAt (c # cs)")
    case (Some m')
    then have "m' = m" using Cons.prems by simp
    then have "c # cs = [] @ (c # cs) \<and> matchMarkerAt (c # cs) = Some m" using Some by simp
    then show ?thesis by (intro exI)
  next
    case None
    then have "desktopStashEntryMessageRe_exec cs = Some m" using Cons.prems by simp
    then obtain pre t where "cs = pre @ t" "matchMarkerAt t = Some m" using Cons.IH by blast
    then have "c # cs = (c # pre) @ t \<and> matchMarkerAt t = Some m" by simp
    then show ?thesis by (intro exI)
  qed
qed

lemma roundtrip_core:
  assumes "b \<noteq> []" and "\<forall>c \<in> set b. \<not> isLineTerminator c"
  shows "extractBranchFromMessage (createDesktopStashMessage b) = Some b"
proof -
  have "matchMarkerAt (createDesktopStashMessage b)
          = Some [js ''!!GitHub_Desktop<'' @ b @ js ''>'', b]"
    using assms matchMarkerAt_Some [of "createDesktopStashMessage b"]
    by (simp add: createDesktopStashMessage_def marker_literal)
  then have "desktopStashEntryMessageRe_exec (createDesktopStashMessage b)
          = Some [js ''!!GitHub_Desktop<'' @ b @ js ''>'', b]"
    by (rule exec_first_position)
  then show ?thesis using assms(1) by (simp add: extractBranchFromMessage_def)
qed

lemma extract_Some_endsInMarker:
  assumes "extractBranchFromMessage message = Some b"
  shows "spec_endsInMarker message b"
proof -
  from assms obtain m where m: "desktopStashEntryMessageRe_exec message = Some m" "b = m ! 1"
    by (auto simp: extractBranchFromMessage_def split: option.splits if_splits)
  then obtain pre t where t: "message = pre @ t" "matchMarkerAt t = Some m"
    using exec_Some_shape by blast
  then obtain cap where cap: "t = js ''!!GitHub_Desktop<'' @ cap @ js ''>''" "cap \<noteq> []"
    "\<forall>c \<in> set cap. \<not> isLineTerminator c" "m = [js ''!!GitHub_Desktop<'' @ cap @ js ''>'', cap]"
    using matchMarkerAt_Some [of t m] by auto
  have "b = cap" using m(2) cap(4) by simp
  moreover have "message = pre @ DesktopStashEntryMarker @ js ''<'' @ cap @ js ''>''"
    using t(1) cap(1) by (simp add: marker_literal)
  ultimately show ?thesis
    unfolding spec_endsInMarker_def using cap(2,3) by (intro conjI exI) simp_all
qed

lemma endsInMarker_extract_Some:
  assumes "spec_endsInMarker message cap"
  shows "extractBranchFromMessage message \<noteq> None"
proof -
  from assms obtain pre where pre: "message = pre @ DesktopStashEntryMarker @ js ''<'' @ cap @ js ''>''"
    and cap: "cap \<noteq> []" "\<forall>c \<in> set cap. \<not> isLineTerminator c"
    unfolding spec_endsInMarker_def by auto
  have here: "matchMarkerAt (js ''!!GitHub_Desktop<'' @ cap @ js ''>'')
      = Some [js ''!!GitHub_Desktop<'' @ cap @ js ''>'', cap]"
    using cap matchMarkerAt_Some [of "js ''!!GitHub_Desktop<'' @ cap @ js ''>''"] by simp
  have msg: "message = pre @ (js ''!!GitHub_Desktop<'' @ cap @ js ''>'')"
    using pre by (simp add: marker_literal)
  have "desktopStashEntryMessageRe_exec message \<noteq> None"
  proof
    assume "desktopStashEntryMessageRe_exec message = None"
    then have "matchMarkerAt (js ''!!GitHub_Desktop<'' @ cap @ js ''>'') = None"
      using msg exec_None [of message] by simp
    then show False using here by simp
  qed
  then obtain m where m: "desktopStashEntryMessageRe_exec message = Some m" by auto
  then obtain pre' t where t: "message = pre' @ t" "matchMarkerAt t = Some m"
    using exec_Some_shape by blast
  then obtain cap' where "cap' \<noteq> []" "m = [js ''!!GitHub_Desktop<'' @ cap' @ js ''>'', cap']"
    using matchMarkerAt_Some [of t m] by auto
  then show ?thesis using m by (simp add: extractBranchFromMessage_def)
qed

section \<open>Claims about the codec\<close>

text \<open>
  C4, as it is written: every non-empty branch name without the closing delimiter
  \<open>>\<close> survives encoding and decoding. The name \<open>feature\<close>, LINE SEPARATOR (U+2028),
  \<open>x\<close> is non-empty and has no \<open>>\<close> (nor anything a repository forbids in a branch
  name), and decoding its marker message yields nothing: \<open>.\<close> does not match U+2028.
\<close>

theorem roundtrip_without_close_counterexample:
  "js ''feature'' @ [0x2028] @ js ''x'' \<noteq> []
   \<and> of_char CHR ''>'' \<notin> set (js ''feature'' @ [0x2028] @ js ''x'')
   \<and> extractBranchFromMessage (createDesktopStashMessage (js ''feature'' @ [0x2028] @ js ''x''))
       = None
   \<and> extractBranchFromMessage (createDesktopStashMessage (js ''feature'' @ [0x2028] @ js ''x''))
       \<noteq> Some (js ''feature'' @ [0x2028] @ js ''x'')"
  by (simp add: extractBranchFromMessage_def createDesktopStashMessage_def
      DesktopStashEntryMarker_def matchMarkerAt_def closeAtEnd_def isLineTerminator_def js_def)

text \<open>
  C4, amended: every non-empty branch name that contains neither the closing delimiter
  \<open>>\<close> nor a line terminator (LF, CR, U+2028, U+2029) is what decoding its marker
  message returns.
\<close>

theorem roundtrip_without_close:
  assumes "b \<noteq> []"
    and "of_char CHR ''>'' \<notin> set b"
    and "\<forall>c \<in> set b. \<not> isLineTerminator c"
  shows "extractBranchFromMessage (createDesktopStashMessage b) = Some b"
  using assms(1,3) by (rule roundtrip_core)

theorem roundtrip_without_close_witness:
  "extractBranchFromMessage (createDesktopStashMessage (js ''feature-x'')) = Some (js ''feature-x'')"
  using roundtrip_without_close [of "js ''feature-x''"]
  by (simp add: isLineTerminator_def js_def)

text \<open>
  C5: decoding is a function of the message alone, defined on every message (the
  definitions above are total recursive functions with no state). It returns nothing
  exactly on the messages that do not end in the marker pattern; whatever it returns is the
  captured name of such an ending, hence never empty (and a match with an empty capture,
  which the pattern cannot produce, would give nothing); and it returns nothing both on
  \<open>random text\<close> and on the marker message of the empty branch name.
\<close>

theorem extractBranch_absent:
  "(extractBranchFromMessage message = None \<longleftrightarrow> (\<forall>cap. \<not> spec_endsInMarker message cap))
   \<and> (\<forall>b. extractBranchFromMessage message = Some b \<longrightarrow> spec_endsInMarker message b \<and> b \<noteq> [])
   \<and> (\<forall>match. desktopStashEntryMessageRe_exec message = Some match \<and> match ! 1 = []
         \<longrightarrow> extractBranchFromMessage message = None)
   \<and> extractBranchFromMessage (js ''random text'') = None
   \<and> extractBranchFromMessage (createDesktopStashMessage []) = None"
proof (intro conjI)
  show "extractBranchFromMessage message = None \<longleftrightarrow> (\<forall>cap. \<not> spec_endsInMarker message cap)"
  proof
    assume "extractBranchFromMessage message = None"
    then show "\<forall>cap. \<not> spec_endsInMarker message cap"
      using endsInMarker_extract_Some by blast
  next
    assume a: "\<forall>cap. \<not> spec_endsInMarker message cap"
    show "extractBranchFromMessage message = None"
    proof (cases "extractBranchFromMessage message")
      case None
      then show ?thesis .
    next
      case (Some b)
      then have "spec_endsInMarker message b" by (rule extract_Some_endsInMarker)
      then show ?thesis using a by simp
    qed
  qed
next
  show "\<forall>b. extractBranchFromMessage message = Some b \<longrightarrow> spec_endsInMarker message b \<and> b \<noteq> []"
    using extract_Some_endsInMarker by (auto simp: spec_endsInMarker_def)
next
  show "\<forall>match. desktopStashEntryMessageRe_exec message = Some match \<and> match ! 1 = []
         \<longrightarrow> extractBranchFromMessage message = None"
    by (simp add: extractBranchFromMessage_def)
next
  show "extractBranchFromMessage (js ''random text'') = None"
    by (simp add: extractBranchFromMessage_def matchMarkerAt_def js_def)
next
  show "extractBranchFromMessage (createDesktopStashMessage []) = None"
    by (simp add: extractBranchFromMessage_def createDesktopStashMessage_def
        DesktopStashEntryMarker_def matchMarkerAt_def closeAtEnd_def isLineTerminator_def js_def)
qed

theorem extractBranch_absent_witness:
  "extractBranchFromMessage (js ''On main: !!GitHub_Desktop<main>'') = Some (js ''main'')
   \<and> spec_endsInMarker (js ''On main: !!GitHub_Desktop<main>'') (js ''main'')
   \<and> js ''main'' \<noteq> []"
proof -
  have e: "extractBranchFromMessage (js ''On main: !!GitHub_Desktop<main>'') = Some (js ''main'')"
    by (simp add: extractBranchFromMessage_def matchMarkerAt_def closeAtEnd_def
        isLineTerminator_def js_def)
  show ?thesis
    using e extractBranch_absent [of "js ''On main: !!GitHub_Desktop<main>''"] by simp
qed

text \<open>
  C10, as it is written: the round trip holds for every non-empty branch name without a
  newline character. The name \<open>a\<close>, PARAGRAPH SEPARATOR (U+2029), \<open>b\<close> is non-empty and
  contains no newline (U+000A), and decoding its marker message yields nothing; the same
  happens with a carriage return (U+000D) or a line separator (U+2028) in the name.
\<close>

theorem roundtrip_greedy_counterexample:
  "js ''a'' @ [0x2029] @ js ''b'' \<noteq> []
   \<and> 0x000A \<notin> set (js ''a'' @ [0x2029] @ js ''b'')
   \<and> extractBranchFromMessage (createDesktopStashMessage (js ''a'' @ [0x2029] @ js ''b'')) = None
   \<and> extractBranchFromMessage (createDesktopStashMessage (js ''a'' @ [0x2029] @ js ''b''))
       \<noteq> Some (js ''a'' @ [0x2029] @ js ''b'')"
  by (simp add: extractBranchFromMessage_def createDesktopStashMessage_def
      DesktopStashEntryMarker_def matchMarkerAt_def closeAtEnd_def isLineTerminator_def js_def)

text \<open>
  C10, amended: the capture group being greedy and the pattern anchored at the end only,
  the round trip holds for every non-empty branch name that contains none of the four line
  terminators (LF, CR, U+2028, U+2029), the names that contain the closing delimiter
  \<open>>\<close> included.
\<close>

theorem roundtrip_greedy:
  "b \<noteq> [] \<and> (\<forall>c \<in> set b. \<not> isLineTerminator c)
   \<longrightarrow> extractBranchFromMessage (createDesktopStashMessage b) = Some b"
  using roundtrip_core by blast

theorem roundtrip_greedy_witness:
  "extractBranchFromMessage (createDesktopStashMessage (js ''a>b<c>>'')) = Some (js ''a>b<c>>'')"
  using roundtrip_greedy [of "js ''a>b<c>>''"]
  by (simp add: isLineTerminator_def js_def)

section \<open>Properties of the process layer and the lister\<close>

lemma git_accepts:
  assumes "process args p (store s) = (result, w)"
    and "exitCode result \<in> successExitCodes options"
  shows "git process args p n options s
           = (Inr result, s\<lparr>store := w, calls := calls s @ [args]\<rparr>)"
  using assms by (simp add: git_def)

lemma git_rejects:
  assumes "process args p (store s) = (result, w)"
    and "exitCode result \<notin> successExitCodes options"
    and "expectedErrors options = {}"
  shows "git process args p n options s
           = (Inl (GitError result args), s\<lparr>store := w, calls := calls s @ [args]\<rparr>)"
  using assms by (simp add: git_def split: option.splits)

lemma git_trace:
  assumes "git process args p n options s = (outcome, s1)"
  shows "calls s1 = calls s @ [args] \<and> logged s1 = logged s"
  using assms by (auto simp: git_def Let_def split: prod.splits if_splits)

lemma getStashes_trace:
  assumes "getStashes process repository s = (outcome, s1)"
  shows "calls s1 = calls s @ [getStashesArgs] \<and> logged s1 = logged s"
proof (cases "git process getStashesArgs (path repository) (js ''getStashEntries'')
             \<lparr>successExitCodes = {0, 128}, expectedErrors = {}\<rparr> s")
  case (Pair x s')
  then have "s1 = s'"
    using assms by (auto simp: getStashes_def Let_def split: sum.splits if_splits)
  then show ?thesis using git_trace [OF Pair] by simp
qed

lemma split_terminated:
  assumes "sep \<notin> set r"
  shows "split sep (r @ sep # rest) = r # split sep rest"
  using assms by (induction r) auto

lemma rawEntries_terminated:
  assumes "\<forall>r \<in> set records. r \<noteq> [] \<and> 0 \<notin> set r"
  shows "rawEntries (concat (map (\<lambda>r. r @ [0]) records)) = records"
  using assms
proof (induction records)
  case Nil
  show ?case by (simp add: rawEntries_def)
next
  case (Cons r records)
  then have r: "r \<noteq> []" "0 \<notin> set r" and rest: "\<forall>x \<in> set records. x \<noteq> [] \<and> 0 \<notin> set x"
    by auto
  have "split 0 (r @ 0 # concat (map (\<lambda>r. r @ [0]) records))
          = r # split 0 (concat (map (\<lambda>r. r @ [0]) records))"
    using r(2) by (rule split_terminated)
  then show ?case
    using Cons.IH [OF rest] r(1) by (simp add: rawEntries_def)
qed

lemma getStashes_walked:
  assumes "process getStashesArgs (path repository) (store s) = (result, w)"
    and "exitCode result = 0"
  shows "getStashes process repository s
           = (Inr \<lparr>desktopEntries = collectEntries (rawEntries (stdout result)) [],
                   stashEntryCount = int (length (rawEntries (stdout result))) - 1\<rparr>,
              s\<lparr>store := w, calls := calls s @ [getStashesArgs]\<rparr>)"
proof -
  have "git process getStashesArgs (path repository) (js ''getStashEntries'')
          \<lparr>successExitCodes = {0, 128}, expectedErrors = {}\<rparr> s
        = (Inr result, s\<lparr>store := w, calls := calls s @ [getStashesArgs]\<rparr>)"
    using assms by (intro git_accepts) simp_all
  then show ?thesis using assms(2) by (simp add: getStashes_def Let_def)
qed

section \<open>Claims about the lister and the locator\<close>

text \<open>
  C3: when the reflog walk succeeds (the process exits with code 0), listing returns, and
  the total count it reports is the number of raw records parsed from the output (the
  non-empty pieces between NUL characters) minus one, which is never that number itself;
  in particular, for an output made of N non-empty records each ended by NUL, the count
  is N - 1.
\<close>

theorem getStashes_count:
  assumes "process getStashesArgs (path repository) (store s) = (result, w)"
    and "exitCode result = 0"
  shows "\<exists>listed s1.
           getStashes process repository s = (Inr listed, s1)
           \<and> stashEntryCount listed = int (length (rawEntries (stdout result))) - 1
           \<and> stashEntryCount listed \<noteq> int (length (rawEntries (stdout result)))
           \<and> (\<forall>records.
                 stdout result = concat (map (\<lambda>r. r @ [0]) records)
                 \<and> (\<forall>r \<in> set records. r \<noteq> [] \<and> 0 \<notin> set r)
                 \<longrightarrow> stashEntryCount listed = int (length records) - 1)"
proof -
  let ?listed = "\<lparr>desktopEntries = collectEntries (rawEntries (stdout result)) [],
                   stashEntryCount = int (length (rawEntries (stdout result))) - 1\<rparr>"
  let ?s1 = "s\<lparr>store := w, calls := calls s @ [getStashesArgs]\<rparr>"
  have run: "getStashes process repository s = (Inr ?listed, ?s1)"
    using assms by (rule getStashes_walked)
  have terminated: "\<forall>records.
      stdout result = concat (map (\<lambda>r. r @ [0]) records)
      \<and> (\<forall>r \<in> set records. r \<noteq> [] \<and> 0 \<notin> set r)
      \<longrightarrow> stashEntryCount ?listed = int (length records) - 1"
    using rawEntries_terminated by auto
  have "getStashes process repository s = (Inr ?listed, ?s1)
      \<and> stashEntryCount ?listed = int (length (rawEntries (stdout result))) - 1
      \<and> stashEntryCount ?listed \<noteq> int (length (rawEntries (stdout result)))
      \<and> (\<forall>records.
            stdout result = concat (map (\<lambda>r. r @ [0]) records)
            \<and> (\<forall>r \<in> set records. r \<noteq> [] \<and> 0 \<notin> set r)
            \<longrightarrow> stashEntryCount ?listed = int (length records) - 1)"
    using run terminated by simp
  then show ?thesis by (intro exI)
qed

theorem getStashes_count_witness:
  "\<exists>listed s1.
     getStashes scripted repo
       \<lparr>store = [\<lparr>exitCode = 0, stdout = ownedRecord @ [0] @ foreignRecord @ [0], stderr = [],
                  gitError = None\<rparr>],
        calls = [], logged = []\<rparr> = (Inr listed, s1)
     \<and> stashEntryCount listed = 1"
proof -
  have records: "rawEntries (ownedRecord @ [0] @ foreignRecord @ [0])
      = [ownedRecord, foreignRecord]"
    using rawEntries_terminated [of "[ownedRecord, foreignRecord]"]
    by (simp add: ownedRecord_def foreignRecord_def positionalRef_def delimiterString_def js_def)
  show ?thesis
    using getStashes_count [of scripted "repo"
        "\<lparr>store = [\<lparr>exitCode = 0, stdout = ownedRecord @ [0] @ foreignRecord @ [0],
                    stderr = [], gitError = None\<rparr>],
          calls = [], logged = []\<rparr>"
        "\<lparr>exitCode = 0, stdout = ownedRecord @ [0] @ foreignRecord @ [0], stderr = [],
          gitError = None\<rparr>" "[]"] records
    by (auto simp: scripted_def)
qed

text \<open>
  C6: when the reflog walk exits with code 128 (there is no stash reference), listing
  raises nothing and returns no owned entry and a total of zero; the walk is the only
  command it has issued.
\<close>

theorem getStashes_no_ref:
  assumes "process getStashesArgs (path repository) (store s) = (result, w)"
    and "exitCode result = 128"
  shows "getStashes process repository s
           = (Inr \<lparr>desktopEntries = [], stashEntryCount = 0\<rparr>,
              s\<lparr>store := w, calls := calls s @ [getStashesArgs]\<rparr>)"
proof -
  have "git process getStashesArgs (path repository) (js ''getStashEntries'')
          \<lparr>successExitCodes = {0, 128}, expectedErrors = {}\<rparr> s
        = (Inr result, s\<lparr>store := w, calls := calls s @ [getStashesArgs]\<rparr>)"
    using assms by (intro git_accepts) simp_all
  then show ?thesis using assms(2) by (simp add: getStashes_def)
qed

theorem getStashes_no_ref_witness:
  "getStashes scripted repo
     \<lparr>store = [\<lparr>exitCode = 128, stdout = [],
                stderr = js ''fatal: ambiguous argument: unknown revision'',
                gitError = None\<rparr>],
      calls = [], logged = []\<rparr>
   = (Inr \<lparr>desktopEntries = [], stashEntryCount = 0\<rparr>,
      \<lparr>store = [], calls = [getStashesArgs], logged = []\<rparr>)"
  using getStashes_no_ref [of scripted "repo"
      "\<lparr>store = [\<lparr>exitCode = 128, stdout = [],
                  stderr = js ''fatal: ambiguous argument: unknown revision'',
                  gitError = None\<rparr>],
        calls = [], logged = []\<rparr>"
      "\<lparr>exitCode = 128, stdout = [],
        stderr = js ''fatal: ambiguous argument: unknown revision'', gitError = None\<rparr>" "[]"]
  by (simp add: scripted_def)

text \<open>
  C9: when the listing succeeds, the lookup by branch returns the first owned entry of the
  listed sequence whose branch is the one asked for: the entry at the least index with
  that branch, which in a sequence listed newest first is the most recently created one;
  and it returns nothing exactly when no listed entry has that branch.
\<close>

theorem getLastDesktopStashEntryForBranch_first:
  assumes "getStashes process repository s = (Inr listed, s1)"
  shows "\<exists>found.
           getLastDesktopStashEntryForBranch process repository branch s = (Inr found, s1)
           \<and> (found = None \<longleftrightarrow> (\<forall>e \<in> set (desktopEntries listed). branchName e \<noteq> branch))
           \<and> (\<forall>e. found = Some e \<longleftrightarrow>
                 (\<exists>i < length (desktopEntries listed).
                    desktopEntries listed ! i = e \<and> branchName e = branch
                    \<and> (\<forall>j < i. branchName (desktopEntries listed ! j) \<noteq> branch)))"
proof -
  let ?found = "find (\<lambda>entry. branchName entry = branch) (desktopEntries listed)"
  have run: "getLastDesktopStashEntryForBranch process repository branch s = (Inr ?found, s1)"
    using assms by (simp add: getLastDesktopStashEntryForBranch_def)
  have none: "?found = None \<longleftrightarrow> (\<forall>e \<in> set (desktopEntries listed). branchName e \<noteq> branch)"
    by (auto simp: find_None_iff)
  have some: "\<forall>e. ?found = Some e \<longleftrightarrow>
      (\<exists>i < length (desktopEntries listed).
         desktopEntries listed ! i = e \<and> branchName e = branch
         \<and> (\<forall>j < i. branchName (desktopEntries listed ! j) \<noteq> branch))"
    by (auto simp: find_Some_iff)
  have "getLastDesktopStashEntryForBranch process repository branch s = (Inr ?found, s1)
      \<and> (?found = None \<longleftrightarrow> (\<forall>e \<in> set (desktopEntries listed). branchName e \<noteq> branch))
      \<and> (\<forall>e. ?found = Some e \<longleftrightarrow>
            (\<exists>i < length (desktopEntries listed).
               desktopEntries listed ! i = e \<and> branchName e = branch
               \<and> (\<forall>j < i. branchName (desktopEntries listed ! j) \<noteq> branch)))"
    using run none some by (intro conjI)
  then show ?thesis by (intro exI)
qed

theorem getLastDesktopStashEntryForBranch_first_witness:
  "getLastDesktopStashEntryForBranch scripted repo (js ''feature-x'')
     \<lparr>store = [\<lparr>exitCode = 0,
                 stdout = foreignRecord @ [0] @ ownedRecord @ [0] @ olderRecord @ [0],
                 stderr = [], gitError = None\<rparr>],
      calls = [], logged = []\<rparr>
   = (Inr (Some ownedEntry), \<lparr>store = [], calls = [getStashesArgs], logged = []\<rparr>)"
proof -
  let ?out = "foreignRecord @ [0] @ ownedRecord @ [0] @ olderRecord @ [0]"
  let ?answer = "\<lparr>exitCode = 0, stdout = ?out, stderr = [], gitError = None\<rparr>"
  let ?s = "\<lparr>store = [?answer], calls = [], logged = []\<rparr>"
  let ?s1 = "\<lparr>store = [] :: IGitResult list, calls = [getStashesArgs], logged = []\<rparr>"
  have records: "rawEntries ?out = [foreignRecord, ownedRecord, olderRecord]"
    using rawEntries_terminated [of "[foreignRecord, ownedRecord, olderRecord]"]
    by (simp add: ownedRecord_def foreignRecord_def positionalRef_def olderRecord_def delimiterString_def js_def)
  have collected: "collectEntries [foreignRecord, ownedRecord, olderRecord] []
      = [ownedEntry, olderEntry]"
    by (simp add: ownedRecord_def foreignRecord_def positionalRef_def olderRecord_def ownedEntry_def
        olderEntry_def delimiterString_def js_def extractBranchFromMessage_def
        matchMarkerAt_def closeAtEnd_def isLineTerminator_def)
  have listing: "getStashes scripted repo ?s
      = (Inr \<lparr>desktopEntries = [ownedEntry, olderEntry], stashEntryCount = 2\<rparr>, ?s1)"
    using getStashes_walked [of scripted repo ?s ?answer "[]"] records collected
    by (simp add: scripted_def)
  obtain found where run:
      "getLastDesktopStashEntryForBranch scripted repo (js ''feature-x'') ?s = (Inr found, ?s1)"
    and some: "\<forall>e. found = Some e \<longleftrightarrow>
      (\<exists>i < length [ownedEntry, olderEntry].
         [ownedEntry, olderEntry] ! i = e \<and> branchName e = js ''feature-x''
         \<and> (\<forall>j < i. branchName ([ownedEntry, olderEntry] ! j) \<noteq> js ''feature-x''))"
    using getLastDesktopStashEntryForBranch_first [OF listing, of "js ''feature-x''"] by auto
  have "0 < length [ownedEntry, olderEntry] \<and> [ownedEntry, olderEntry] ! 0 = ownedEntry
      \<and> branchName ownedEntry = js ''feature-x''
      \<and> (\<forall>j < 0. branchName ([ownedEntry, olderEntry] ! j) \<noteq> js ''feature-x'')"
    by (simp add: ownedEntry_def)
  then have "\<exists>i < length [ownedEntry, olderEntry].
         [ownedEntry, olderEntry] ! i = ownedEntry \<and> branchName ownedEntry = js ''feature-x''
         \<and> (\<forall>j < i. branchName ([ownedEntry, olderEntry] ! j) \<noteq> js ''feature-x'')"
    by (intro exI)
  then have "found = Some ownedEntry" using some by simp
  then show ?thesis using run by simp
qed

section \<open>Properties of the mutator\<close>

lemma matchLiteral_prefix: "matchLiteral p s = None \<longleftrightarrow> \<not> prefix p s"
proof -
  have "matchLiteral p s \<noteq> None \<longleftrightarrow> (\<exists>r. matchLiteral p s = Some r)" by auto
  also have "\<dots> \<longleftrightarrow> (\<exists>r. s = p @ r)" by (simp add: matchLiteral_Some)
  finally show ?thesis by (auto simp: prefix_def)
qed

lemma linesOf_not_Nil: "spec_linesOf s \<noteq> []"
  by (induction s) (auto split: list.splits)

lemma prefix_first_line:
  assumes "\<forall>c \<in> set t. \<not> isLineTerminator c"
  shows "prefix t (hd (spec_linesOf s)) \<longleftrightarrow> prefix t s"
  using assms
proof (induction s arbitrary: t)
  case Nil
  show ?case by simp
next
  case (Cons c cs)
  show ?case
  proof (cases t)
    case Nil
    then show ?thesis by simp
  next
    case (Cons d ds)
    then have d: "\<not> isLineTerminator d" and ds: "\<forall>x \<in> set ds. \<not> isLineTerminator x"
      using Cons.prems by auto
    show ?thesis
    proof (cases "isLineTerminator c")
      case True
      then have "c \<noteq> d" using d by auto
      then show ?thesis using True Cons by simp
    next
      case False
      obtain l ls where l: "spec_linesOf cs = l # ls" using linesOf_not_Nil by (cases "spec_linesOf cs") auto
      have "prefix ds l \<longleftrightarrow> prefix ds cs" using Cons.IH [OF ds] l by simp
      then show ?thesis using False Cons l by simp
    qed
  qed
qed

lemma tag_no_terminator: "\<forall>c \<in> set (js ''error: ''). \<not> isLineTerminator c"
  by (simp add: js_def isLineTerminator_def)

lemma errorPrefixRe_from_iff:
  "errorPrefixRe_from lineStart s \<noteq> None \<longleftrightarrow>
     (lineStart \<and> prefix (js ''error: '') s)
     \<or> (\<exists>l \<in> set (tl (spec_linesOf s)). prefix (js ''error: '') l)"
proof (induction s arbitrary: lineStart)
  case Nil
  show ?case by (simp add: matchLiteral_prefix js_def)
next
  case (Cons c cs)
  obtain l ls where l: "spec_linesOf cs = l # ls" using linesOf_not_Nil by (cases "spec_linesOf cs") auto
  have first: "prefix (js ''error: '') l \<longleftrightarrow> prefix (js ''error: '') cs"
    using prefix_first_line [OF tag_no_terminator, of cs] l by simp
  show ?case
  proof (cases "lineStart \<and> prefix (js ''error: '') (c # cs)")
    case True
    then show ?thesis by (simp add: matchLiteral_prefix)
  next
    case False
    then have "errorPrefixRe_from lineStart (c # cs) = errorPrefixRe_from (isLineTerminator c) cs"
      by (auto simp: matchLiteral_prefix)
    then show ?thesis using False Cons.IH [of "isLineTerminator c"] l first by auto
  qed
qed

lemma errorPrefixRe_from_Some:
  "errorPrefixRe_from lineStart s = Some m \<Longrightarrow> m = [js ''error: '']"
  by (induction s arbitrary: lineStart) (auto split: if_splits)

lemma errorPrefixRe_hasErrorLine: "errorPrefixRe_exec err \<noteq> None \<longleftrightarrow> spec_hasErrorLine err"
proof -
  obtain l ls where l: "spec_linesOf err = l # ls" using linesOf_not_Nil by (cases "spec_linesOf err") auto
  have "prefix (js ''error: '') l \<longleftrightarrow> prefix (js ''error: '') err"
    using prefix_first_line [OF tag_no_terminator, of err] l by simp
  then show ?thesis
    using errorPrefixRe_from_iff [of True err] l
    by (simp add: errorPrefixRe_exec_def spec_hasErrorLine_def)
qed

lemma errorPrefixRe_exec_cases:
  "errorPrefixRe_exec err = (if spec_hasErrorLine err then Some [js ''error: ''] else None)"
proof (cases "errorPrefixRe_exec err")
  case None
  then show ?thesis using errorPrefixRe_hasErrorLine [of err] by simp
next
  case (Some m)
  then have "m = [js ''error: '']"
    unfolding errorPrefixRe_exec_def by (rule errorPrefixRe_from_Some)
  then show ?thesis using Some errorPrefixRe_hasErrorLine [of err] by simp
qed

lemma locate_listed:
  assumes "getStashEntryMatchingSha process repository sha s = (Inr found, s1)"
  shows "\<exists>listed. getStashes process repository s = (Inr listed, s1)
           \<and> found = find (\<lambda>e. stashSha e = sha) (desktopEntries listed)"
  using assms by (auto simp: getStashEntryMatchingSha_def split: prod.splits sum.splits)

lemma find_sha_Some:
  assumes "find (\<lambda>e. stashSha e = sha) es = Some e"
  shows "e \<in> set es \<and> stashSha e = sha"
  using assms by (auto simp: find_Some_iff)

lemma find_sha_None: "find (\<lambda>e. stashSha e = sha) es = None \<longleftrightarrow> sha \<notin> stashSha ` set es"
  by (auto simp: find_None_iff)

lemma drop_absent:
  assumes "getStashes process repository s = (Inr listed, s1)"
    and "sha \<notin> stashSha ` set (desktopEntries listed)"
  shows "dropDesktopStashEntry process repository sha s = (Inr (), s1)"
proof -
  have "find (\<lambda>e. stashSha e = sha) (desktopEntries listed) = None"
    using assms(2) by (simp add: find_sha_None)
  then show ?thesis
    using assms(1) by (simp add: dropDesktopStashEntry_def getStashEntryMatchingSha_def)
qed

lemma drop_then_absent:
  assumes honoured: "dropHonoured process repository"
    and stable: "listingStable process repository"
    and dropped: "dropDesktopStashEntry process repository sha s = (Inr (), sF)"
    and relist: "getStashes process repository sF = (Inr relisted, sL)"
  shows "sha \<notin> stashSha ` set (desktopEntries relisted)"
proof -
  obtain found s1 where loc: "getStashEntryMatchingSha process repository sha s = (Inr found, s1)"
    using dropped
    by (cases "getStashEntryMatchingSha process repository sha s")
       (auto simp: dropDesktopStashEntry_def split: sum.splits)
  then obtain listed where listed: "getStashes process repository s = (Inr listed, s1)"
    and found: "found = find (\<lambda>e. stashSha e = sha) (desktopEntries listed)"
    using locate_listed by blast
  show ?thesis
  proof (cases found)
    case None
    then have "sF = s1" using dropped loc by (simp add: dropDesktopStashEntry_def)
    then have "desktopEntries relisted = desktopEntries listed"
      using stable listed relist unfolding listingStable_def by blast
    then show ?thesis using None found by (simp add: find_sha_None)
  next
    case (Some e)
    then have e: "e \<in> set (desktopEntries listed)" "stashSha e = sha"
      using found find_sha_Some [of sha "desktopEntries listed" e] by auto
    obtain answer where "git process (dropStashArgs e) (path repository)
        (js ''dropStashEntry'') defaultOptions s1 = (Inr answer, sF)"
      using dropped loc Some
      by (cases "git process (dropStashArgs e) (path repository)
            (js ''dropStashEntry'') defaultOptions s1")
         (auto simp: dropDesktopStashEntry_def split: sum.splits)
    then have "stashSha e \<notin> stashSha ` set (desktopEntries relisted)"
      using honoured listed e(1) relist unfolding dropHonoured_def by blast
    then show ?thesis using e(2) by simp
  qed
qed

lemma drop_trace:
  assumes "getStashes process repository s = (Inr listed, s1)"
    and "find (\<lambda>e. stashSha e = sha) (desktopEntries listed) = Some entryToDelete"
  shows "calls (snd (dropDesktopStashEntry process repository sha s))
           = calls s @ [getStashesArgs, dropStashArgs entryToDelete]"
proof -
  obtain outcome s2 where dropped:
    "git process (dropStashArgs entryToDelete) (path repository) (js ''dropStashEntry'')
       defaultOptions s1 = (outcome, s2)"
    by (cases "git process (dropStashArgs entryToDelete) (path repository)
          (js ''dropStashEntry'') defaultOptions s1") auto
  have "calls s2 = calls s1 @ [dropStashArgs entryToDelete]"
    using git_trace [OF dropped] by simp
  moreover have "calls s1 = calls s @ [getStashesArgs]"
    using getStashes_trace [OF assms(1)] by simp
  moreover have "snd (dropDesktopStashEntry process repository sha s) = s2"
    using assms dropped
    by (simp add: dropDesktopStashEntry_def getStashEntryMatchingSha_def split: sum.splits)
  ultimately show ?thesis by simp
qed

lemma drop_command_distinct:
  "dropStashArgs e \<noteq> getStashesArgs"
  "dropStashArgs e \<noteq> popStashArgs e'"
  by (simp_all add: dropStashArgs_def getStashesArgs_def popStashArgs_def)

section \<open>The two-state store meets what the operations rely on\<close>

lemma shelf_records:
  "rawEntries (ownedRecord @ [0] @ foreignRecord @ [0]) = [ownedRecord, foreignRecord]"
  "rawEntries (foreignRecord @ [0]) = [foreignRecord]"
  using rawEntries_terminated [of "[ownedRecord, foreignRecord]"]
    rawEntries_terminated [of "[foreignRecord]"]
  by (simp_all add: ownedRecord_def foreignRecord_def positionalRef_def delimiterString_def
      js_def)

lemma shelf_collected:
  "collectEntries [ownedRecord, foreignRecord] [] = [ownedEntry]"
  "collectEntries [foreignRecord] [] = []"
  by (simp_all add: ownedRecord_def foreignRecord_def ownedEntry_def positionalRef_def
      delimiterString_def js_def extractBranchFromMessage_def matchMarkerAt_def closeAtEnd_def
      isLineTerminator_def)

lemma shelf_getStashes:
  "getStashes (shelfProcess answer) repository s
     = (Inr \<lparr>desktopEntries = (if store s = Shelved then [ownedEntry] else []),
             stashEntryCount = (if store s = Shelved then 1 else 0)\<rparr>,
        s\<lparr>calls := calls s @ [getStashesArgs]\<rparr>)"
proof -
  let ?result = "\<lparr>exitCode = 0,
      stdout = (if store s = Shelved then ownedRecord @ [0] @ foreignRecord @ [0]
                else foreignRecord @ [0]),
      stderr = [], gitError = None\<rparr>"
  have "shelfProcess answer getStashesArgs (path repository) (store s) = (?result, store s)"
    by (simp add: shelfProcess_def)
  then have "getStashes (shelfProcess answer) repository s
      = (Inr \<lparr>desktopEntries = collectEntries (rawEntries (stdout ?result)) [],
              stashEntryCount = int (length (rawEntries (stdout ?result))) - 1\<rparr>,
         s\<lparr>store := store s, calls := calls s @ [getStashesArgs]\<rparr>)"
    by (intro getStashes_walked) simp_all
  then show ?thesis using shelf_records shelf_collected by simp
qed

lemma shelf_commands:
  "popStashArgs ownedEntry = [js ''stash'', js ''pop'', js ''--quiet'', positionalRef ''0'']"
  "dropStashArgs ownedEntry = [js ''stash'', js ''drop'', positionalRef ''0'']"
  "[js ''stash'', js ''pop'', js ''--quiet'', positionalRef ''0''] \<noteq> getStashesArgs"
  "[js ''stash'', js ''drop'', positionalRef ''0''] \<noteq> getStashesArgs"
  by (simp_all add: popStashArgs_def dropStashArgs_def getStashesArgs_def ownedEntry_def js_def)

lemma shelf_pop:
  "git (shelfProcess answer) (popStashArgs ownedEntry) p n options s = (Inr popped, s2)
     \<Longrightarrow> store s2 = store s"
  by (auto simp: git_def shelfProcess_def shelf_commands Let_def split: if_splits)

lemma shelf_drop:
  "git (shelfProcess answer) (dropStashArgs ownedEntry) p n defaultOptions s = (Inr dropped, s2)
     \<Longrightarrow> store s2 = Emptied"
  by (cases "store s")
     (auto simp: git_def shelfProcess_def shelf_commands defaultOptions_def Let_def
        split: if_splits)

lemma shelf_dropHonoured: "dropHonoured (shelfProcess answer) repository"
  unfolding dropHonoured_def
proof (intro allI impI)
  fix s listed s1 e dropped s2 relisted s3
  assume listed: "getStashes (shelfProcess answer) repository s = (Inr listed, s1)"
    and e: "e \<in> set (desktopEntries listed)"
    and dropped: "git (shelfProcess answer) (dropStashArgs e) (path repository)
        (js ''dropStashEntry'') defaultOptions s1 = (Inr dropped, s2)"
    and relisted: "getStashes (shelfProcess answer) repository s2 = (Inr relisted, s3)"
  have "e = ownedEntry"
    using listed e by (auto simp: shelf_getStashes split: if_splits)
  then have "store s2 = Emptied" using dropped shelf_drop by blast
  then have "desktopEntries relisted = []"
    using relisted by (auto simp: shelf_getStashes)
  then show "stashSha e \<notin> stashSha ` set (desktopEntries relisted)" by simp
qed

lemma shelf_listingStable: "listingStable (shelfProcess answer) repository"
  unfolding listingStable_def by (auto simp: shelf_getStashes)

lemma shelf_failedPopKeeps: "failedPopKeeps (shelfProcess answer) repository"
  unfolding failedPopKeeps_def
proof (intro allI impI)
  fix s listed s1 e popped s2 relisted s3
  assume listed: "getStashes (shelfProcess answer) repository s = (Inr listed, s1)"
    and e: "e \<in> set (desktopEntries listed)"
    and popped: "git (shelfProcess answer) (popStashArgs e) (path repository)
        (js ''popStashEntry'') popStashOptions s1 = (Inr popped, s2)"
    and relisted: "getStashes (shelfProcess answer) repository s2 = (Inr relisted, s3)"
  have owned: "e = ownedEntry" and shelved: "store s1 = Shelved"
    using listed e by (auto simp: shelf_getStashes split: if_splits)
  then have "store s2 = Shelved" using popped shelf_pop by fastforce
  then have "desktopEntries relisted = [ownedEntry]"
    using relisted by (auto simp: shelf_getStashes)
  then show "stashSha e \<in> stashSha ` set (desktopEntries relisted)" using owned by simp
qed

section \<open>Claims about the mutator\<close>

text \<open>
  C8: once the untracked files are staged, creating a stash issues the stash-push command
  and accepts the exit codes 0 and 1 only: any other exit code raises. On exit code 0 it
  returns the success signal. On exit code 1 it raises, with the command and its output,
  exactly when a line of the standard error begins with the error tag \<open>error: \<close>;
  otherwise it logs one line about the anomaly and returns the success signal.
\<close>

theorem createDesktopStashEntry_exit_codes:
  assumes "stageUntrackedFiles process repository s = (Inr (), s1)"
    and "process (createStashArgs branch) (path repository) (store s1) = (result, w)"
  shows "createDesktopStashEntry process repository branch s =
     (if exitCode result = 0 then
        (Inr True, s1\<lparr>store := w, calls := calls s1 @ [createStashArgs branch]\<rparr>)
      else if exitCode result = 1 then
        (if spec_hasErrorLine (stderr result) then
           (Inl (GitError result (createStashArgs branch)),
            s1\<lparr>store := w, calls := calls s1 @ [createStashArgs branch]\<rparr>)
         else
           (Inr True,
            s1\<lparr>store := w, calls := calls s1 @ [createStashArgs branch],
               logged := logged s1 @ [createStashLogLine result]\<rparr>))
      else
        (Inl (GitError result (createStashArgs branch)),
         s1\<lparr>store := w, calls := calls s1 @ [createStashArgs branch]\<rparr>))"
proof -
  let ?options = "\<lparr>successExitCodes = {0, 1}, expectedErrors = {}\<rparr>"
  let ?s2 = "s1\<lparr>store := w, calls := calls s1 @ [createStashArgs branch]\<rparr>"
  let ?push = "git process (createStashArgs branch) (path repository) (js ''createStashEntry'')
      ?options s1"
  consider (zero) "exitCode result = 0" | (one) "exitCode result = 1"
    | (other) "exitCode result \<noteq> 0" "exitCode result \<noteq> 1"
    by blast
  then show ?thesis
  proof cases
    case zero
    then have "?push = (Inr result, ?s2)" using assms(2) by (intro git_accepts) simp_all
    then show ?thesis using assms(1) zero by (simp add: createDesktopStashEntry_def Let_def)
  next
    case one
    then have "?push = (Inr result, ?s2)" using assms(2) by (intro git_accepts) simp_all
    then show ?thesis
      using assms(1) one
      by (simp add: createDesktopStashEntry_def errorPrefixRe_exec_cases Let_def)
  next
    case other
    then have "?push = (Inl (GitError result (createStashArgs branch)), ?s2)"
      using assms(2) by (intro git_rejects) simp_all
    then show ?thesis using assms(1) other by (simp add: createDesktopStashEntry_def Let_def)
  qed
qed

theorem createDesktopStashEntry_exit_codes_witness:
  "createDesktopStashEntry scripted repo (js ''feature-x'')
     \<lparr>store = [untrackedAnswer, doneAnswer, warnedAnswer], calls = [], logged = []\<rparr>
   = (Inr True,
      \<lparr>store = [],
       calls = [[js ''ls-files'', js ''-z'', js ''--others'', js ''--exclude-standard''],
                [js ''add'', js ''notes.txt'', js ''src/new.ts''],
                createStashArgs (js ''feature-x'')],
       logged = [createStashLogLine warnedAnswer]\<rparr>)
   \<and> createDesktopStashEntry scripted repo (js ''feature-x'')
     \<lparr>store = [untrackedAnswer, doneAnswer, refusedAnswer], calls = [], logged = []\<rparr>
   = (Inl (GitError refusedAnswer (createStashArgs (js ''feature-x''))),
      \<lparr>store = [],
       calls = [[js ''ls-files'', js ''-z'', js ''--others'', js ''--exclude-standard''],
                [js ''add'', js ''notes.txt'', js ''src/new.ts''],
                createStashArgs (js ''feature-x'')],
       logged = []\<rparr>)"
proof -
  let ?staged = "[[js ''ls-files'', js ''-z'', js ''--others'', js ''--exclude-standard''],
                 [js ''add'', js ''notes.txt'', js ''src/new.ts'']]"
  have files: "split 0 (js ''notes.txt'' @ [0] @ js ''src/new.ts'')
      = [js ''notes.txt'', js ''src/new.ts'']"
    by (simp add: js_def)
  have staged: "stageUntrackedFiles scripted repo
        \<lparr>store = [untrackedAnswer, doneAnswer, answer], calls = [], logged = []\<rparr>
      = (Inr (), \<lparr>store = [answer], calls = ?staged, logged = []\<rparr>)" for answer
    using files
    by (simp add: stageUntrackedFiles_def git_def scripted_def defaultOptions_def
        untrackedAnswer_def doneAnswer_def)
  have benign: "\<not> spec_hasErrorLine (stderr warnedAnswer)"
    by (simp add: spec_hasErrorLine_def warnedAnswer_def js_def isLineTerminator_def)
  have fatal: "spec_hasErrorLine (stderr refusedAnswer)"
    by (simp add: spec_hasErrorLine_def refusedAnswer_def js_def isLineTerminator_def)
  have codes: "exitCode warnedAnswer = 1" "exitCode refusedAnswer = 1"
    by (simp_all add: warnedAnswer_def refusedAnswer_def)
  show ?thesis
    using createDesktopStashEntry_exit_codes [OF staged [of warnedAnswer],
        of "js ''feature-x''" warnedAnswer "[]"]
      createDesktopStashEntry_exit_codes [OF staged [of refusedAnswer],
        of "js ''feature-x''" refusedAnswer "[]"]
      benign fatal codes
    by (simp add: scripted_def)
qed

text \<open>
  C7: when the listing shows no owned entry with the given hash, dropping is a silent
  no-op: it raises nothing and the listing is the only command it has issued (no stash-drop
  command). Hence a second drop of the same hash is such a no-op, on a store that honours
  a successful drop and lists the same entries when asked twice: after a first drop that
  succeeded, a second one whose listing succeeds raises nothing and issues the listing only.
\<close>

theorem dropDesktopStashEntry_no_match:
  "(\<forall>listed s1.
      getStashes process repository s = (Inr listed, s1)
      \<and> sha \<notin> stashSha ` set (desktopEntries listed)
      \<longrightarrow> dropDesktopStashEntry process repository sha s = (Inr (), s1)
          \<and> calls s1 = calls s @ [getStashesArgs]
          \<and> (\<forall>e. dropStashArgs e \<notin> set (drop (length (calls s)) (calls s1))))
   \<and> (dropHonoured process repository \<and> listingStable process repository \<longrightarrow>
        (\<forall>sF relisted sL.
           dropDesktopStashEntry process repository sha s = (Inr (), sF)
           \<and> getStashes process repository sF = (Inr relisted, sL)
           \<longrightarrow> dropDesktopStashEntry process repository sha sF = (Inr (), sL)
               \<and> calls sL = calls sF @ [getStashesArgs]))"
proof -
  have absent: "\<forall>listed s1.
      getStashes process repository s = (Inr listed, s1)
      \<and> sha \<notin> stashSha ` set (desktopEntries listed)
      \<longrightarrow> dropDesktopStashEntry process repository sha s = (Inr (), s1)
          \<and> calls s1 = calls s @ [getStashesArgs]
          \<and> (\<forall>e. dropStashArgs e \<notin> set (drop (length (calls s)) (calls s1)))"
  proof (intro allI impI)
    fix listed s1
    assume a: "getStashes process repository s = (Inr listed, s1)
        \<and> sha \<notin> stashSha ` set (desktopEntries listed)"
    then have noop: "dropDesktopStashEntry process repository sha s = (Inr (), s1)"
      using drop_absent by blast
    have issued: "calls s1 = calls s @ [getStashesArgs]"
      using a getStashes_trace by blast
    have "\<forall>e. dropStashArgs e \<notin> set (drop (length (calls s)) (calls s1))"
      using issued drop_command_distinct by simp
    then show "dropDesktopStashEntry process repository sha s = (Inr (), s1)
        \<and> calls s1 = calls s @ [getStashesArgs]
        \<and> (\<forall>e. dropStashArgs e \<notin> set (drop (length (calls s)) (calls s1)))"
      using noop issued by (intro conjI)
  qed
  have again: "dropHonoured process repository \<and> listingStable process repository \<longrightarrow>
      (\<forall>sF relisted sL.
         dropDesktopStashEntry process repository sha s = (Inr (), sF)
         \<and> getStashes process repository sF = (Inr relisted, sL)
         \<longrightarrow> dropDesktopStashEntry process repository sha sF = (Inr (), sL)
             \<and> calls sL = calls sF @ [getStashesArgs])"
  proof (intro allI impI)
    fix sF relisted sL
    assume contracts: "dropHonoured process repository \<and> listingStable process repository"
      and twice: "dropDesktopStashEntry process repository sha s = (Inr (), sF)
        \<and> getStashes process repository sF = (Inr relisted, sL)"
    then have "sha \<notin> stashSha ` set (desktopEntries relisted)"
      using drop_then_absent by blast
    then have noop: "dropDesktopStashEntry process repository sha sF = (Inr (), sL)"
      using twice drop_absent by blast
    have "calls sL = calls sF @ [getStashesArgs]"
      using twice getStashes_trace by blast
    then show "dropDesktopStashEntry process repository sha sF = (Inr (), sL)
        \<and> calls sL = calls sF @ [getStashesArgs]"
      using noop by (intro conjI)
  qed
  show ?thesis using absent again by (intro conjI)
qed

theorem dropDesktopStashEntry_no_match_witness:
  "dropDesktopStashEntry (shelfProcess doneAnswer) repo (js ''77be02aa'')
     \<lparr>store = Shelved, calls = [], logged = []\<rparr>
   = (Inr (), \<lparr>store = Shelved, calls = [getStashesArgs], logged = []\<rparr>)
   \<and> dropDesktopStashEntry (shelfProcess doneAnswer) repo (js ''f3a9c1d2'')
     \<lparr>store = Shelved, calls = [], logged = []\<rparr>
   = (Inr (), \<lparr>store = Emptied, calls = [getStashesArgs, dropStashArgs ownedEntry],
               logged = []\<rparr>)
   \<and> dropDesktopStashEntry (shelfProcess doneAnswer) repo (js ''f3a9c1d2'')
     \<lparr>store = Emptied, calls = [getStashesArgs, dropStashArgs ownedEntry], logged = []\<rparr>
   = (Inr (), \<lparr>store = Emptied,
               calls = [getStashesArgs, dropStashArgs ownedEntry, getStashesArgs],
               logged = []\<rparr>)"
proof -
  let ?P = "shelfProcess doneAnswer"
  let ?s = "\<lparr>store = Shelved, calls = [], logged = []\<rparr>"
  let ?s1 = "\<lparr>store = Shelved, calls = [getStashesArgs], logged = []\<rparr>"
  let ?sF = "\<lparr>store = Emptied, calls = [getStashesArgs, dropStashArgs ownedEntry],
      logged = []\<rparr>"
  let ?sL = "\<lparr>store = Emptied,
      calls = [getStashesArgs, dropStashArgs ownedEntry, getStashesArgs], logged = []\<rparr>"
  have listed: "getStashes ?P repo ?s
      = (Inr \<lparr>desktopEntries = [ownedEntry], stashEntryCount = 1\<rparr>, ?s1)"
    by (simp add: shelf_getStashes)
  have foreign: "js ''77be02aa'' \<notin> stashSha ` set [ownedEntry]"
    by (simp add: ownedEntry_def js_def)
  have first: "dropDesktopStashEntry ?P repo (js ''f3a9c1d2'') ?s = (Inr (), ?sF)"
    by (simp add: dropDesktopStashEntry_def getStashEntryMatchingSha_def shelf_getStashes
        git_def defaultOptions_def, simp add: ownedEntry_def shelfProcess_def
        dropStashArgs_def getStashesArgs_def js_def)
  have relisted: "getStashes ?P repo ?sF
      = (Inr \<lparr>desktopEntries = [], stashEntryCount = 0\<rparr>, ?sL)"
    by (simp add: shelf_getStashes)
  have contracts: "dropHonoured ?P repo \<and> listingStable ?P repo"
    using shelf_dropHonoured shelf_listingStable by blast
  have "dropDesktopStashEntry ?P repo (js ''77be02aa'') ?s = (Inr (), ?s1)"
    using dropDesktopStashEntry_no_match [of ?P repo ?s "js ''77be02aa''"] listed foreign
    by simp
  moreover have "dropDesktopStashEntry ?P repo (js ''f3a9c1d2'') ?sF = (Inr (), ?sL)"
    using dropDesktopStashEntry_no_match [of ?P repo ?s "js ''f3a9c1d2''"] contracts first
      relisted
    by simp
  ultimately show ?thesis using first by simp
qed

text \<open>
  C1: when the lookup by hash finds an owned entry and the stash-pop command answers with
  exit code 1 and an empty standard error, popping logs one line and then does exactly
  what dropping the same hash does from there. If the entry is still listed at that
  moment, the commands issued are the listing, the pop, the listing again and the drop of
  the entry's current positional name. On a store that honours a successful drop and lists
  the same entries when asked twice, after a pop that returned the hash is absent from
  every subsequent listing.
\<close>

theorem popStashEntry_compensating_drop:
  assumes "getStashEntryMatchingSha process repository sha s = (Inr (Some stashToPop), s1)"
    and "process (popStashArgs stashToPop) (path repository) (store s1) = (result, w)"
    and "exitCode result = 1"
    and "stderr result = []"
  shows "popStashEntry process repository sha s
           = dropDesktopStashEntry process repository sha
               (s1\<lparr>store := w, calls := calls s1 @ [popStashArgs stashToPop],
                   logged := logged s1 @ [popStashLogLine result]\<rparr>)
     \<and> (\<forall>listed s3 entryToDelete.
           getStashes process repository
             (s1\<lparr>store := w, calls := calls s1 @ [popStashArgs stashToPop],
                 logged := logged s1 @ [popStashLogLine result]\<rparr>) = (Inr listed, s3)
           \<and> find (\<lambda>e. stashSha e = sha) (desktopEntries listed) = Some entryToDelete
           \<longrightarrow> calls (snd (popStashEntry process repository sha s))
                 = calls s @ [getStashesArgs, popStashArgs stashToPop, getStashesArgs,
                              dropStashArgs entryToDelete])
     \<and> (dropHonoured process repository \<and> listingStable process repository \<longrightarrow>
          (\<forall>sF relisted sL.
             popStashEntry process repository sha s = (Inr (), sF)
             \<and> getStashes process repository sF = (Inr relisted, sL)
             \<longrightarrow> sha \<notin> stashSha ` set (desktopEntries relisted)))"
proof -
  let ?s2 = "s1\<lparr>store := w, calls := calls s1 @ [popStashArgs stashToPop]\<rparr>"
  let ?s2' = "s1\<lparr>store := w, calls := calls s1 @ [popStashArgs stashToPop],
      logged := logged s1 @ [popStashLogLine result]\<rparr>"
  have popped: "git process (popStashArgs stashToPop) (path repository) (js ''popStashEntry'')
      popStashOptions s1 = (Inr result, ?s2)"
    using assms(2,3) by (intro git_accepts) (simp_all add: popStashOptions_def)
  have run: "popStashEntry process repository sha s
      = dropDesktopStashEntry process repository sha ?s2'"
    using assms(1,3,4) popped by (simp add: popStashEntry_def Let_def)
  obtain listed0 where "getStashes process repository s = (Inr listed0, s1)"
    using locate_listed [OF assms(1)] by blast
  then have located: "calls s1 = calls s @ [getStashesArgs]"
    using getStashes_trace by blast
  have trace: "\<forall>listed s3 entryToDelete.
      getStashes process repository ?s2' = (Inr listed, s3)
      \<and> find (\<lambda>e. stashSha e = sha) (desktopEntries listed) = Some entryToDelete
      \<longrightarrow> calls (snd (popStashEntry process repository sha s))
            = calls s @ [getStashesArgs, popStashArgs stashToPop, getStashesArgs,
                         dropStashArgs entryToDelete]"
  proof (intro allI impI)
    fix listed s3 entryToDelete
    assume "getStashes process repository ?s2' = (Inr listed, s3)
      \<and> find (\<lambda>e. stashSha e = sha) (desktopEntries listed) = Some entryToDelete"
    then have "calls (snd (dropDesktopStashEntry process repository sha ?s2'))
        = calls ?s2' @ [getStashesArgs, dropStashArgs entryToDelete]"
      using drop_trace by blast
    then show "calls (snd (popStashEntry process repository sha s))
        = calls s @ [getStashesArgs, popStashArgs stashToPop, getStashesArgs,
                     dropStashArgs entryToDelete]"
      using run located by simp
  qed
  have absent: "dropHonoured process repository \<and> listingStable process repository \<longrightarrow>
      (\<forall>sF relisted sL.
         popStashEntry process repository sha s = (Inr (), sF)
         \<and> getStashes process repository sF = (Inr relisted, sL)
         \<longrightarrow> sha \<notin> stashSha ` set (desktopEntries relisted))"
    using run drop_then_absent [of process repository sha ?s2'] by auto
  show ?thesis using run trace absent by (intro conjI)
qed

theorem popStashEntry_compensating_drop_witness:
  "popStashEntry (shelfProcess quirkAnswer) repo (js ''f3a9c1d2'')
     \<lparr>store = Shelved, calls = [], logged = []\<rparr>
   = (Inr (),
      \<lparr>store = Emptied,
       calls = [getStashesArgs, popStashArgs ownedEntry, getStashesArgs,
                dropStashArgs ownedEntry],
       logged = [popStashLogLine quirkAnswer]\<rparr>)
   \<and> (\<exists>relisted sL.
        getStashes (shelfProcess quirkAnswer) repo
          \<lparr>store = Emptied,
           calls = [getStashesArgs, popStashArgs ownedEntry, getStashesArgs,
                    dropStashArgs ownedEntry],
           logged = [popStashLogLine quirkAnswer]\<rparr> = (Inr relisted, sL)
        \<and> js ''f3a9c1d2'' \<notin> stashSha ` set (desktopEntries relisted))"
proof -
  let ?P = "shelfProcess quirkAnswer"
  let ?s = "\<lparr>store = Shelved, calls = [], logged = []\<rparr>"
  let ?s1 = "\<lparr>store = Shelved, calls = [getStashesArgs], logged = []\<rparr>"
  let ?s2' = "\<lparr>store = Shelved, calls = [getStashesArgs, popStashArgs ownedEntry],
      logged = [popStashLogLine quirkAnswer]\<rparr>"
  let ?sF = "\<lparr>store = Emptied,
      calls = [getStashesArgs, popStashArgs ownedEntry, getStashesArgs,
               dropStashArgs ownedEntry],
      logged = [popStashLogLine quirkAnswer]\<rparr>"
  have located: "getStashEntryMatchingSha ?P repo (js ''f3a9c1d2'') ?s
      = (Inr (Some ownedEntry), ?s1)"
    by (simp add: getStashEntryMatchingSha_def shelf_getStashes) (simp add: ownedEntry_def)
  have answered: "?P (popStashArgs ownedEntry) (path repo) (store ?s1) = (quirkAnswer, Shelved)"
    by (simp add: shelfProcess_def shelf_commands)
  have quirk: "exitCode quirkAnswer = 1" "stderr quirkAnswer = []"
    by (simp_all add: quirkAnswer_def)
  have dropped: "dropDesktopStashEntry ?P repo (js ''f3a9c1d2'') ?s2' = (Inr (), ?sF)"
    by (simp add: dropDesktopStashEntry_def getStashEntryMatchingSha_def shelf_getStashes
        git_def defaultOptions_def, simp add: ownedEntry_def shelfProcess_def
        dropStashArgs_def getStashesArgs_def js_def)
  have relisted: "getStashes ?P repo ?sF
      = (Inr \<lparr>desktopEntries = [], stashEntryCount = 0\<rparr>, ?sF\<lparr>calls := calls ?sF @ [getStashesArgs]\<rparr>)"
    by (simp add: shelf_getStashes)
  have contracts: "dropHonoured ?P repo \<and> listingStable ?P repo"
    using shelf_dropHonoured shelf_listingStable by blast
  note claim = popStashEntry_compensating_drop [OF located answered quirk]
  have run: "popStashEntry ?P repo (js ''f3a9c1d2'') ?s = (Inr (), ?sF)"
    using claim dropped by simp
  have "js ''f3a9c1d2'' \<notin> stashSha ` set (desktopEntries
      \<lparr>desktopEntries = [], stashEntryCount = 0\<rparr>)"
    using claim contracts run relisted by blast
  then have "getStashes ?P repo ?sF
        = (Inr \<lparr>desktopEntries = [], stashEntryCount = 0\<rparr>,
           ?sF\<lparr>calls := calls ?sF @ [getStashesArgs]\<rparr>)
      \<and> js ''f3a9c1d2'' \<notin> stashSha ` set (desktopEntries
          \<lparr>desktopEntries = [], stashEntryCount = 0\<rparr>)"
    using relisted by simp
  then have "\<exists>relisted sL. getStashes ?P repo ?sF = (Inr relisted, sL)
      \<and> js ''f3a9c1d2'' \<notin> stashSha ` set (desktopEntries relisted)"
    by (intro exI)
  then show ?thesis using run by simp
qed

text \<open>
  C2: when the lookup by hash finds an owned entry and the stash-pop command answers with
  exit code 1 and a non-empty standard error, popping raises an error that carries the
  result and the command, and stops there: the listing and the pop are the only commands
  it has issued, no drop among them. On a store in which such a failed pop leaves the
  entry in place, every listing that follows reports the hash.
\<close>

theorem popStashEntry_failure:
  assumes "getStashEntryMatchingSha process repository sha s = (Inr (Some stashToPop), s1)"
    and "process (popStashArgs stashToPop) (path repository) (store s1) = (result, w)"
    and "exitCode result = 1"
    and "stderr result \<noteq> []"
  shows "popStashEntry process repository sha s
           = (Inl (GitError result (popStashArgs stashToPop)),
              s1\<lparr>store := w, calls := calls s1 @ [popStashArgs stashToPop]\<rparr>)
     \<and> calls (snd (popStashEntry process repository sha s))
           = calls s @ [getStashesArgs, popStashArgs stashToPop]
     \<and> (\<forall>e. dropStashArgs e \<notin> set (drop (length (calls s))
                 (calls (snd (popStashEntry process repository sha s)))))
     \<and> (failedPopKeeps process repository \<longrightarrow>
          (\<forall>relisted sL.
             getStashes process repository (snd (popStashEntry process repository sha s))
               = (Inr relisted, sL)
             \<longrightarrow> sha \<in> stashSha ` set (desktopEntries relisted)))"
proof -
  let ?s2 = "s1\<lparr>store := w, calls := calls s1 @ [popStashArgs stashToPop]\<rparr>"
  have popped: "git process (popStashArgs stashToPop) (path repository) (js ''popStashEntry'')
      popStashOptions s1 = (Inr result, ?s2)"
    using assms(2,3) by (intro git_accepts) (simp_all add: popStashOptions_def)
  have run: "popStashEntry process repository sha s
      = (Inl (GitError result (popStashArgs stashToPop)), ?s2)"
    using assms(1,3,4) popped by (simp add: popStashEntry_def Let_def)
  obtain listed where listed: "getStashes process repository s = (Inr listed, s1)"
    and found: "Some stashToPop = find (\<lambda>e. stashSha e = sha) (desktopEntries listed)"
    using locate_listed [OF assms(1)] by blast
  have located: "calls s1 = calls s @ [getStashesArgs]"
    using listed getStashes_trace by blast
  have entry: "stashToPop \<in> set (desktopEntries listed)" "stashSha stashToPop = sha"
    using found find_sha_Some [of sha "desktopEntries listed" stashToPop] by auto
  have kept: "failedPopKeeps process repository \<longrightarrow>
      (\<forall>relisted sL.
         getStashes process repository (snd (popStashEntry process repository sha s))
           = (Inr relisted, sL)
         \<longrightarrow> sha \<in> stashSha ` set (desktopEntries relisted))"
  proof (intro allI impI)
    fix relisted sL
    assume keeps: "failedPopKeeps process repository"
      and "getStashes process repository (snd (popStashEntry process repository sha s))
        = (Inr relisted, sL)"
    then have "getStashes process repository ?s2 = (Inr relisted, sL)" using run by simp
    then have "stashSha stashToPop \<in> stashSha ` set (desktopEntries relisted)"
      using keeps listed entry(1) popped assms(3,4) unfolding failedPopKeeps_def by blast
    then show "sha \<in> stashSha ` set (desktopEntries relisted)" using entry(2) by simp
  qed
  have issued: "calls (snd (popStashEntry process repository sha s))
      = calls s @ [getStashesArgs, popStashArgs stashToPop]"
    using run located by simp
  have "\<forall>e. dropStashArgs e \<notin> set (drop (length (calls s))
      (calls (snd (popStashEntry process repository sha s))))"
    unfolding issued using drop_command_distinct by simp
  then show ?thesis using run issued kept by (intro conjI)
qed

theorem popStashEntry_failure_witness:
  "popStashEntry (shelfProcess conflictAnswer) repo (js ''f3a9c1d2'')
     \<lparr>store = Shelved, calls = [], logged = []\<rparr>
   = (Inl (GitError conflictAnswer (popStashArgs ownedEntry)),
      \<lparr>store = Shelved, calls = [getStashesArgs, popStashArgs ownedEntry], logged = []\<rparr>)
   \<and> (\<exists>relisted sL.
        getStashes (shelfProcess conflictAnswer) repo
          \<lparr>store = Shelved, calls = [getStashesArgs, popStashArgs ownedEntry], logged = []\<rparr>
          = (Inr relisted, sL)
        \<and> js ''f3a9c1d2'' \<in> stashSha ` set (desktopEntries relisted))"
proof -
  let ?P = "shelfProcess conflictAnswer"
  let ?s = "\<lparr>store = Shelved, calls = [], logged = []\<rparr>"
  let ?s1 = "\<lparr>store = Shelved, calls = [getStashesArgs], logged = []\<rparr>"
  let ?s2 = "\<lparr>store = Shelved, calls = [getStashesArgs, popStashArgs ownedEntry],
      logged = []\<rparr>"
  have located: "getStashEntryMatchingSha ?P repo (js ''f3a9c1d2'') ?s
      = (Inr (Some ownedEntry), ?s1)"
    by (simp add: getStashEntryMatchingSha_def shelf_getStashes) (simp add: ownedEntry_def)
  have answered: "?P (popStashArgs ownedEntry) (path repo) (store ?s1)
      = (conflictAnswer, Shelved)"
    by (simp add: shelfProcess_def shelf_commands)
  have conflict: "exitCode conflictAnswer = 1" "stderr conflictAnswer \<noteq> []"
    by (simp_all add: conflictAnswer_def js_def)
  have relisted: "getStashes ?P repo ?s2
      = (Inr \<lparr>desktopEntries = [ownedEntry], stashEntryCount = 1\<rparr>,
         ?s2\<lparr>calls := calls ?s2 @ [getStashesArgs]\<rparr>)"
    by (simp add: shelf_getStashes)
  note claim = popStashEntry_failure [OF located answered conflict]
  have run: "popStashEntry ?P repo (js ''f3a9c1d2'') ?s
      = (Inl (GitError conflictAnswer (popStashArgs ownedEntry)), ?s2)"
    using claim by simp
  have "js ''f3a9c1d2'' \<in> stashSha ` set (desktopEntries
      \<lparr>desktopEntries = [ownedEntry], stashEntryCount = 1\<rparr>)"
    using claim shelf_failedPopKeeps [of conflictAnswer repo] run relisted by auto
  then have "getStashes ?P repo ?s2
        = (Inr \<lparr>desktopEntries = [ownedEntry], stashEntryCount = 1\<rparr>,
           ?s2\<lparr>calls := calls ?s2 @ [getStashesArgs]\<rparr>)
      \<and> js ''f3a9c1d2'' \<in> stashSha ` set (desktopEntries
          \<lparr>desktopEntries = [ownedEntry], stashEntryCount = 1\<rparr>)"
    using relisted by simp
  then have "\<exists>relisted sL. getStashes ?P repo ?s2 = (Inr relisted, sL)
      \<and> js ''f3a9c1d2'' \<in> stashSha ` set (desktopEntries relisted)"
    by (intro exI)
  then show ?thesis using run by simp
qed

end
